(* ===== verification/Rust_Str.thy ===== *)
theory Rust_Str
  imports Prelude
begin

section \<open>Rust's str: bytes, character classes, trimming and splitting\<close>

text \<open>
  The operations of \<open>str\<close>, \<open>u8\<close> and \<open>Path\<close> that the program calls, on UTF-8 byte strings.
  White space is Unicode's \<open>White_Space\<close> for \<open>trim\<close>, \<open>split_whitespace\<close> and
  \<open>char::is_whitespace\<close> (recognised on its UTF-8 encoding, one to three bytes) and the five
  ASCII characters of \<open>u8::is_ascii_whitespace\<close> (which leaves out the vertical tab).
\<close>

subsection \<open>Bytes and ASCII classes\<close>

definition byte :: "char \<Rightarrow> nat" where
  "byte c = of_char c"

definition is_digit :: "char \<Rightarrow> bool" where
  "is_digit c \<longleftrightarrow> 48 \<le> byte c \<and> byte c \<le> 57"

definition is_upper :: "char \<Rightarrow> bool" where
  "is_upper c \<longleftrightarrow> 65 \<le> byte c \<and> byte c \<le> 90"

definition is_lower :: "char \<Rightarrow> bool" where
  "is_lower c \<longleftrightarrow> 97 \<le> byte c \<and> byte c \<le> 122"

definition is_alnum :: "char \<Rightarrow> bool" where
  "is_alnum c \<longleftrightarrow> is_digit c \<or> is_upper c \<or> is_lower c"

definition is_hexdigit :: "char \<Rightarrow> bool" where
  "is_hexdigit c \<longleftrightarrow> is_digit c \<or> (65 \<le> byte c \<and> byte c \<le> 70) \<or> (97 \<le> byte c \<and> byte c \<le> 102)"

definition is_ascii_ws :: "char \<Rightarrow> bool" where
  "is_ascii_ws c \<longleftrightarrow> byte c = 32 \<or> byte c = 9 \<or> byte c = 10 \<or> byte c = 12 \<or> byte c = 13"

definition lower_char :: "char \<Rightarrow> char" where
  "lower_char c = (if is_upper c then char_of (byte c + 32) else c)"

definition to_ascii_lowercase :: "str \<Rightarrow> str" where
  "to_ascii_lowercase s = map lower_char s"

definition eq_ignore_ascii_case :: "str \<Rightarrow> str \<Rightarrow> bool" where
  "eq_ignore_ascii_case s t \<longleftrightarrow> to_ascii_lowercase s = to_ascii_lowercase t"

lemma byte_lt [simp]: "byte c < 256"
  by (simp add: byte_def)

lemma byte_char_of [simp]: "n < 256 \<Longrightarrow> byte (char_of n) = n"
  by (simp add: byte_def of_char_of)

lemma char_of_byte [simp]: "char_of (byte c) = c"
  by (simp add: byte_def char_of_char)

lemma byte_inject [simp]: "byte c = byte d \<longleftrightarrow> c = d"
  by (simp add: byte_def)

lemmas class_defs = is_digit_def is_upper_def is_lower_def is_alnum_def is_hexdigit_def
  is_ascii_ws_def

lemma byte_lower_char:
  "byte (lower_char c) = (if is_upper c then byte c + 32 else byte c)"
  by (simp add: lower_char_def is_upper_def)

lemma lower_char_idem [simp]: "lower_char (lower_char c) = lower_char c"
  by (simp add: lower_char_def is_upper_def)

lemma lower_char_not_upper: "\<not> is_upper c \<Longrightarrow> lower_char c = c"
  by (simp add: lower_char_def)

lemma to_ascii_lowercase_idem [simp]:
  "to_ascii_lowercase (to_ascii_lowercase s) = to_ascii_lowercase s"
  by (simp add: to_ascii_lowercase_def)

lemma length_to_ascii_lowercase [simp]: "length (to_ascii_lowercase s) = length s"
  by (simp add: to_ascii_lowercase_def)

lemma to_ascii_lowercase_append [simp]:
  "to_ascii_lowercase (s @ t) = to_ascii_lowercase s @ to_ascii_lowercase t"
  by (simp add: to_ascii_lowercase_def)

lemma eq_ignore_case_refl [simp]: "eq_ignore_ascii_case s s"
  by (simp add: eq_ignore_ascii_case_def)

lemma is_hexdigit_alnum: "is_hexdigit c \<Longrightarrow> is_alnum c"
  by (auto simp: class_defs)

lemma is_hexdigit_not_ws: "is_hexdigit c \<Longrightarrow> \<not> is_ascii_ws c"
  by (auto simp: class_defs)

subsection \<open>White space\<close>

text \<open>The number of bytes of the white-space character a string begins with; 0 if none.\<close>

definition ws_width :: "str \<Rightarrow> nat" where
  "ws_width s =
     (case map byte (take 3 s) of
        [] \<Rightarrow> 0
      | x # ys \<Rightarrow>
          if (9 \<le> x \<and> x \<le> 13) \<or> x = 32 then 1
          else (case ys of
              [] \<Rightarrow> 0
            | y # zs \<Rightarrow>
                if x = 0xC2 \<and> (y = 0x85 \<or> y = 0xA0) then 2
                else (case zs of
                    [] \<Rightarrow> 0
                  | z # _ \<Rightarrow>
                      if (x = 0xE1 \<and> y = 0x9A \<and> z = 0x80)
                        \<or> (x = 0xE2 \<and> y = 0x80 \<and>
                            ((0x80 \<le> z \<and> z \<le> 0x8A) \<or> z = 0xA8 \<or> z = 0xA9 \<or> z = 0xAF))
                        \<or> (x = 0xE2 \<and> y = 0x81 \<and> z = 0x9F)
                        \<or> (x = 0xE3 \<and> y = 0x80 \<and> z = 0x80)
                      then 3 else 0)))"

lemma ws_width_Nil [simp]: "ws_width [] = 0"
  by (simp add: ws_width_def)

lemma str_cases3:
  obtains "s = []" | a where "s = [a]" | a b where "s = [a, b]" | a b c t where "s = a # b # c # t"
  by (metis list.exhaust)

lemma ws_width_le: "ws_width s \<le> length s"
  by (cases s rule: str_cases3) (simp_all add: ws_width_def)

lemma ws_width_graph [simp]:
  "33 \<le> byte c \<Longrightarrow> byte c < 0xC2 \<Longrightarrow> ws_width (c # s) = 0"
  by (auto simp: ws_width_def split: list.splits)

lemma ws_width_alnum [simp]: "is_alnum c \<Longrightarrow> ws_width (c # s) = 0"
  by (rule ws_width_graph) (auto simp: class_defs)

lemma ws_width_ascii: "9 \<le> byte c \<and> byte c \<le> 13 \<or> byte c = 32 \<Longrightarrow> ws_width (c # s) = 1"
  by (auto simp: ws_width_def)

subsection \<open>Trimming\<close>

function trim_start :: "str \<Rightarrow> str" where
  "trim_start s = (let n = ws_width s in if n = 0 then s else trim_start (drop n s))"
  by pat_completeness auto
termination
proof (relation "measure length")
  fix s :: str and n
  assume "n = ws_width s" and "n \<noteq> 0"
  then show "(drop n s, s) \<in> measure length"
    using ws_width_le [of s] by auto
qed simp

declare trim_start.simps [simp del]

text \<open>The number of bytes of the white-space character a string ends with.\<close>

definition ws_suffix :: "str \<Rightarrow> nat" where
  "ws_suffix s =
     (let at = (\<lambda>n. n \<le> length s \<and> ws_width (drop (length s - n) s) = n)
      in if at 1 then 1 else if at 2 then 2 else if at 3 then 3 else 0)"

lemma ws_suffix_le: "ws_suffix s \<le> length s"
  by (simp add: ws_suffix_def Let_def)

function trim_end :: "str \<Rightarrow> str" where
  "trim_end s = (let n = ws_suffix s in if n = 0 then s else trim_end (take (length s - n) s))"
  by pat_completeness auto
termination
proof (relation "measure length")
  fix s :: str and n
  assume "n = ws_suffix s" and "n \<noteq> 0"
  then show "(take (length s - n) s, s) \<in> measure length"
    using ws_suffix_le [of s] by auto
qed simp

declare trim_end.simps [simp del]

definition trim :: "str \<Rightarrow> str" where
  "trim s = trim_end (trim_start s)"

lemma trim_start_id: "ws_width s = 0 \<Longrightarrow> trim_start s = s"
  by (simp add: trim_start.simps)

lemma trim_end_id: "ws_suffix s = 0 \<Longrightarrow> trim_end s = s"
  by (simp add: trim_end.simps)

lemma ws_suffix_snoc_ascii:
  assumes "33 \<le> byte c" and "byte c < 0x80"
  shows "ws_suffix (s @ [c]) = 0"
proof -
  have 1: "ws_width [c] = 0" using assms by simp
  have 2: "ws_width [b, c] \<noteq> 2" for b
    using assms by (auto simp: ws_width_def)
  have 3: "ws_width [a, b, c] \<noteq> 3" for a b
    using assms by (auto simp: ws_width_def)
  have w2: "ws_width (drop (length s - 1) s @ [c]) \<noteq> 2" if "s \<noteq> []"
    using 2 that by (cases s rule: rev_cases) auto
  have w3: "ws_width (drop (length s - 2) s @ [c]) \<noteq> 3" if len: "2 \<le> length s"
  proof -
    obtain t b where t: "s = t @ [b]" using len by (cases s rule: rev_cases) auto
    with len obtain u a where "t = u @ [a]" by (cases t rule: rev_cases) auto
    with t 3 show ?thesis by simp
  qed
  from 1 w2 w3 show ?thesis
    by (auto simp: ws_suffix_def Let_def numeral_2_eq_2 numeral_3_eq_3 Suc_le_eq)
qed

text \<open>A string of printing ASCII characters has nothing to trim.\<close>

definition printing :: "str \<Rightarrow> bool" where
  "printing s \<longleftrightarrow> list_all (\<lambda>c. 33 \<le> byte c \<and> byte c < 0x80) s"

lemma printing_simps [simp]:
  "printing []"
  "printing (c # s) \<longleftrightarrow> 33 \<le> byte c \<and> byte c < 0x80 \<and> printing s"
  "printing (s @ t) \<longleftrightarrow> printing s \<and> printing t"
  by (auto simp: printing_def)

lemma trim_printing: "printing s \<Longrightarrow> trim s = s"
proof (cases s rule: rev_cases)
  case Nil
  then show ?thesis by (simp add: trim_def trim_start_id trim_end_id ws_suffix_def)
next
  case (snoc t c)
  assume "printing s"
  then have "ws_width s = 0" by (cases s) auto
  moreover from \<open>printing s\<close> have "ws_suffix s = 0"
    using snoc by (simp add: ws_suffix_snoc_ascii)
  ultimately show ?thesis by (simp add: trim_def trim_start_id trim_end_id)
qed

lemma length_trim_start: "length (trim_start s) \<le> length s"
proof (induction s rule: trim_start.induct)
  case (1 s)
  then show ?case by (subst trim_start.simps) (force simp: Let_def)
qed

lemma length_trim_end: "length (trim_end s) \<le> length s"
proof (induction s rule: trim_end.induct)
  case (1 s)
  then show ?case by (subst trim_end.simps) (force simp: Let_def)
qed

lemma set_trim_start: "set (trim_start s) \<subseteq> set s"
proof (induction s rule: trim_start.induct)
  case (1 s)
  then show ?case by (subst trim_start.simps) (auto simp: Let_def dest: in_set_dropD)
qed

lemma set_trim_end: "set (trim_end s) \<subseteq> set s"
proof (induction s rule: trim_end.induct)
  case (1 s)
  then show ?case by (subst trim_end.simps) (auto simp: Let_def dest: in_set_takeD)
qed

lemma set_trim: "set (trim s) \<subseteq> set s"
  unfolding trim_def by (rule order_trans [OF set_trim_end set_trim_start])

lemma length_trim: "length (trim s) \<le> length s"
  unfolding trim_def by (rule order_trans [OF length_trim_end length_trim_start])

lemma ws_width_trim_start [simp]: "ws_width (trim_start s) = 0"
proof (induction s rule: trim_start.induct)
  case (1 s)
  then show ?case by (cases "ws_width s = 0") (simp_all add: trim_start.simps [of s])
qed

lemma trim_start_ws: "0 < ws_width s \<Longrightarrow> trim_start s = trim_start (drop (ws_width s) s)"
  by (simp add: trim_start.simps [of s])

lemma trim_start_space [simp]: "trim_start (CHR '' '' # s) = trim_start s"
proof -
  have "ws_width (CHR '' '' # s) = 1"
    by (rule ws_width_ascii) (simp add: byte_def)
  then show ?thesis by (simp add: trim_start_ws)
qed

subsection \<open>Prefixes, splitting and joining\<close>

definition strip_prefix :: "str \<Rightarrow> str \<Rightarrow> str option" where
  "strip_prefix p s = (if take (length p) s = p then Some (drop (length p) s) else None)"

definition ends_with :: "str \<Rightarrow> str \<Rightarrow> bool" where
  "ends_with s p \<longleftrightarrow> length p \<le> length s \<and> drop (length s - length p) s = p"

fun split_once :: "char \<Rightarrow> str \<Rightarrow> (str \<times> str) option" where
  "split_once c [] = None"
| "split_once c (x # xs) =
     (if x = c then Some ([], xs) else map_option (\<lambda>(a, b). (x # a, b)) (split_once c xs))"

fun split_on :: "'a \<Rightarrow> 'a list \<Rightarrow> 'a list list" where
  "split_on c [] = [[]]"
| "split_on c (x # xs) =
     (if x = c then [] # split_on c xs
      else (case split_on c xs of [] \<Rightarrow> [[x]] | p # ps \<Rightarrow> (x # p) # ps))"

fun str_contains :: "str \<Rightarrow> str \<Rightarrow> bool" where
  "str_contains [] n \<longleftrightarrow> n = []"
| "str_contains (x # xs) n \<longleftrightarrow> take (length n) (x # xs) = n \<or> str_contains xs n"

fun join :: "'a list \<Rightarrow> 'a list list \<Rightarrow> 'a list" where
  "join sep [] = []"
| "join sep [x] = x"
| "join sep (x # y # zs) = x @ sep @ join sep (y # zs)"

text \<open>
  \<open>str::lines\<close>: pieces that end in a newline lose it and a carriage return before it; a last
  piece without a newline is kept as it is, and is not there if it is empty.
\<close>

definition strip_cr :: "str \<Rightarrow> str" where
  "strip_cr s = (if s \<noteq> [] \<and> byte (last s) = 13 then butlast s else s)"

fun lines_of :: "str list \<Rightarrow> str list" where
  "lines_of [] = []"
| "lines_of [s] = (if s = [] then [] else [s])"
| "lines_of (s # t # us) = strip_cr s # lines_of (t # us)"

definition lines :: "str \<Rightarrow> str list" where
  "lines s = lines_of (split_on (char_of (10 :: nat)) s)"

fun take_word :: "str \<Rightarrow> str \<times> str" where
  "take_word [] = ([], [])"
| "take_word (c # s) =
     (if 0 < ws_width (c # s) then ([], c # s)
      else (case take_word s of (w, r) \<Rightarrow> (c # w, r)))"

lemma take_word_append: "take_word s = (w, r) \<Longrightarrow> s = w @ r"
  by (induction s arbitrary: w r rule: take_word.induct) (auto split: if_splits prod.splits)

lemma take_word_shorter:
  "take_word s = (w, r) \<Longrightarrow> s \<noteq> [] \<Longrightarrow> ws_width s = 0 \<Longrightarrow> length r < length s"
  by (cases s) (auto split: if_splits prod.splits dest!: take_word_append)

function split_ws :: "str \<Rightarrow> str list" where
  "split_ws s =
     (case trim_start s of
        [] \<Rightarrow> []
      | c # t \<Rightarrow> (case take_word (c # t) of (w, r) \<Rightarrow> w # split_ws r))"
  by pat_completeness auto
termination
  by (relation "measure length")
     (simp, metis in_measure length_trim_start list.distinct(1) order_less_le_trans
       take_word_shorter ws_width_trim_start)

declare split_ws.simps [simp del]

lemma take_word_printing:
  "printing w \<Longrightarrow> r = [] \<or> 0 < ws_width r \<Longrightarrow> take_word (w @ r) = (w, r)"
proof (induction w)
  case Nil
  then show ?case by (cases r) auto
qed simp

lemma split_ws_Nil [simp]: "split_ws [] = []"
  by (simp add: split_ws.simps trim_start_id)

lemma split_ws_space [simp]: "split_ws (CHR '' '' # s) = split_ws s"
  by (simp add: split_ws.simps)

lemma split_ws_word:
  assumes "printing w" and "w \<noteq> []" and "r = [] \<or> 0 < ws_width r"
  shows "split_ws (w @ r) = w # split_ws r"
proof -
  obtain c t where w: "w = c # t" using assms(2) by (cases w) auto
  then have "trim_start (w @ r) = c # (t @ r)"
    using assms(1) by (simp add: trim_start_id)
  moreover have "take_word (c # (t @ r)) = (w, r)"
    using take_word_printing [OF assms(1,3)] w by simp
  ultimately show ?thesis by (simp add: split_ws.simps [of "w @ r"])
qed

lemma split_ws_join:
  assumes "\<forall>w \<in> set ws. printing w \<and> w \<noteq> []"
  shows "split_ws (join '' '' ws) = ws"
  using assms
proof (induction "'' ''" ws rule: join.induct)
  case (2 x)
  then show ?case using split_ws_word [of x "[]"] by simp
next
  case (3 x y zs)
  have "ws_width (CHR '' '' # join '' '' (y # zs)) = 1"
    by (rule ws_width_ascii) (simp add: byte_def)
  then show ?case
    using 3 split_ws_word [of x "CHR '' '' # join '' '' (y # zs)"] by simp
qed simp

lemma split_ws_join_append:
  assumes "\<forall>w \<in> set ws. printing w \<and> w \<noteq> []" and "ws \<noteq> []"
    and "r = [] \<or> 0 < ws_width r"
  shows "split_ws (join '' '' ws @ r) = ws @ split_ws r"
  using assms(1,2)
proof (induction "'' ''" ws rule: join.induct)
  case (2 x)
  then show ?case using split_ws_word [of x r] assms(3) by simp
next
  case (3 x y zs)
  have "ws_width (CHR '' '' # join '' '' (y # zs) @ r) = 1"
    by (rule ws_width_ascii) (simp add: byte_def)
  then show ?case
    using 3 split_ws_word [of x "CHR '' '' # join '' '' (y # zs) @ r"] by simp
qed simp

lemma split_ws_spaces [simp]: "split_ws (replicate k (CHR '' '') @ s) = split_ws s"
  by (induction k) simp_all

lemma split_once_append: "c \<notin> set a \<Longrightarrow> split_once c (a @ c # b) = Some (a, b)"
  by (induction a) auto

lemma split_once_Some_iff: "split_once c s = Some (a, b) \<longleftrightarrow> s = a @ c # b \<and> c \<notin> set a"
proof (induction s arbitrary: a)
  case (Cons x xs)
  then show ?case by (cases a) auto
qed simp

lemma split_once_None_iff: "split_once c s = None \<longleftrightarrow> c \<notin> set s"
  by (induction s) auto

lemma strip_prefix_Some_iff: "strip_prefix p s = Some t \<longleftrightarrow> s = p @ t"
  by (auto simp: strip_prefix_def) (metis append_take_drop_id)

lemma strip_prefix_append [simp]: "strip_prefix p (p @ t) = Some t"
  by (simp add: strip_prefix_def)

lemma ends_with_iff: "ends_with s p \<longleftrightarrow> (\<exists>q. s = q @ p)"
  by (auto simp: ends_with_def) (metis append_take_drop_id)

lemma str_contains_iff: "str_contains s n \<longleftrightarrow> (\<exists>a b. s = a @ n @ b)"
proof (induction s)
  case (Cons x xs)
  have "take (length n) (x # xs) = n \<longleftrightarrow> (\<exists>b. x # xs = n @ b)"
    by (metis append_eq_conv_conj append_take_drop_id)
  with Cons show ?case
    by (auto simp: Cons_eq_append_conv)
qed auto

subsection \<open>Path::file\_name\<close>

text \<open>
  The last component of a Unix path: empty components and \<open>.\<close> are skipped, and a path that is
  empty, a root, or ends in \<open>..\<close> has no file name.
\<close>

definition file_name :: "str \<Rightarrow> str option" where
  "file_name path =
     (case rev (filter (\<lambda>p. p \<noteq> [] \<and> p \<noteq> ''.'') (split_on (CHR ''/'') path)) of
        [] \<Rightarrow> None
      | p # _ \<Rightarrow> if p = ''..'' then None else Some p)"

lemma split_on_nonempty [simp]: "split_on c s \<noteq> []"
  by (cases s) (auto split: list.splits)

lemma split_on_no_sep: "p \<in> set (split_on c s) \<Longrightarrow> c \<notin> set p"
  by (induction s arbitrary: p rule: split_on.induct) (auto split: if_splits list.splits)

lemma split_on_single: "c \<notin> set s \<Longrightarrow> split_on c s = [s]"
  by (induction s) auto

lemma split_on_append: "split_on c (a @ c # b) = split_on c a @ split_on c b"
  by (induction a rule: split_on.induct) (auto split: list.splits)

lemma file_name_slash:
  assumes "CHR ''/'' \<notin> set n" and "n \<noteq> []" and "n \<noteq> ''.''" and "n \<noteq> ''..''"
  shows "file_name (d @ CHR ''/'' # n) = Some n"
  using assms by (simp add: file_name_def split_on_append split_on_single)

lemma file_name_Some: "file_name p = Some n \<Longrightarrow> n \<noteq> [] \<and> CHR ''/'' \<notin> set n"
proof -
  let ?ps = "filter (\<lambda>p. p \<noteq> [] \<and> p \<noteq> ''.'') (split_on (CHR ''/'') p)"
  assume "file_name p = Some n"
  then have "n \<in> set (rev ?ps)"
    unfolding file_name_def by (cases "rev ?ps") (simp_all only: list.case option.distinct
        split: if_splits, simp)
  then have "n \<noteq> []" and "n \<in> set (split_on (CHR ''/'') p)" by simp_all
  then show ?thesis by (blast dest: split_on_no_sep)
qed

end
