(* ===== verification/Rust_Int.thy ===== *)
theory Rust_Int
  imports Rust_Str
begin

section \<open>Parsing and printing integers\<close>

text \<open>
  \<open>from_str_radix\<close> and \<open>str::parse\<close> on unsigned integers (an optional \<open>+\<close>, then digits, with
  the three errors of \<open>ParseIntError\<close>), and the format specifications \<open>{}\<close>, \<open>{:x}\<close>,
  \<open>{:016x}\<close>, \<open>{:08x}\<close> and \<open>{:02x}\<close>. The lemmas say that parsing undoes printing.
\<close>

datatype int_error = EmptyInt | InvalidDigit | PosOverflow

fun int_error_text :: "int_error \<Rightarrow> str" where
  "int_error_text EmptyInt = ''cannot parse integer from empty string''"
| "int_error_text InvalidDigit = ''invalid digit found in string''"
| "int_error_text PosOverflow = ''number too large to fit in target type''"

text \<open>\<open>char::to_digit(radix)\<close> for a radix of at most 16.\<close>

definition digit_val :: "nat \<Rightarrow> char \<Rightarrow> nat option" where
  "digit_val r c =
     (let x = byte c;
          d = (if 48 \<le> x \<and> x \<le> 57 then x - 48
               else if 65 \<le> x \<and> x \<le> 70 then x - 55
               else if 97 \<le> x \<and> x \<le> 102 then x - 87 else r)
      in if d < r then Some d else None)"

text \<open>The digit loop: every step checks the digit, then the multiplication and the addition.\<close>

fun accum :: "nat \<Rightarrow> nat \<Rightarrow> nat \<Rightarrow> str \<Rightarrow> int_error + nat" where
  "accum lim r acc [] = Inr acc"
| "accum lim r acc (c # cs) =
     (case digit_val r c of
        None \<Rightarrow> Inl InvalidDigit
      | Some d \<Rightarrow> if acc * r + d < lim then accum lim r (acc * r + d) cs else Inl PosOverflow)"

definition from_radix :: "nat \<Rightarrow> nat \<Rightarrow> str \<Rightarrow> int_error + nat" where
  "from_radix lim r s =
     (case s of
        [] \<Rightarrow> Inl EmptyInt
      | c # cs \<Rightarrow>
          if cs = [] \<and> (c = CHR ''+'' \<or> c = CHR ''-'') then Inl InvalidDigit
          else if c = CHR ''+'' then accum lim r 0 cs
          else accum lim r 0 s)"

definition u64_from_radix :: "nat \<Rightarrow> str \<Rightarrow> int_error + u64" where
  "u64_from_radix r s = and_then (from_radix (2 ^ 64) r s) (\<lambda>n. Inr (of_nat n))"

definition u32_from_radix :: "nat \<Rightarrow> str \<Rightarrow> int_error + u32" where
  "u32_from_radix r s = and_then (from_radix (2 ^ 32) r s) (\<lambda>n. Inr (of_nat n))"

subsection \<open>Printing\<close>

definition digit_char :: "nat \<Rightarrow> char" where
  "digit_char d = char_of (if d < 10 then d + 48 else d + 87)"

fun show_radix :: "nat \<Rightarrow> nat \<Rightarrow> str" where
  "show_radix r n =
     (if n < r \<or> r < 2 then [digit_char n] else show_radix r (n div r) @ [digit_char (n mod r)])"

declare show_radix.simps [simp del]

definition pad :: "nat \<Rightarrow> str \<Rightarrow> str" where
  "pad w s = replicate (w - length s) (CHR ''0'') @ s"

definition show_nat :: "nat \<Rightarrow> str" where
  "show_nat n = show_radix 10 n"

text \<open>\<open>0x{:016x}\<close>, \<open>0x{:x}\<close> and \<open>{:02x}\<close>.\<close>

definition hex16 :: "u64 \<Rightarrow> str" where
  "hex16 a = ''0x'' @ pad 16 (show_radix 16 (unat a))"

definition hexn :: "u64 \<Rightarrow> str" where
  "hexn a = ''0x'' @ show_radix 16 (unat a)"

definition hex2 :: "u8 \<Rightarrow> str" where
  "hex2 b = pad 2 (show_radix 16 (unat b))"

subsection \<open>Digits\<close>

lemma digit_val_lt: "digit_val r c = Some d \<Longrightarrow> d < r"
  by (auto simp: digit_val_def Let_def split: if_splits)

lemma byte_digit_char: "d < 16 \<Longrightarrow> byte (digit_char d) = (if d < 10 then d + 48 else d + 87)"
  by (simp add: digit_char_def)

lemma digit_val_digit_char [simp]: "d < r \<Longrightarrow> r \<le> 16 \<Longrightarrow> digit_val r (digit_char d) = Some d"
  by (auto simp: digit_val_def byte_digit_char Let_def)

lemma digit_val_16_iff: "digit_val 16 c \<noteq> None \<longleftrightarrow> is_hexdigit c"
  by (auto simp: digit_val_def class_defs Let_def)

lemma digit_val_10_iff: "digit_val 10 c \<noteq> None \<longleftrightarrow> is_digit c"
  by (auto simp: digit_val_def class_defs Let_def)

lemma digit_val_lower: "r \<le> 16 \<Longrightarrow> digit_val r (lower_char c) = digit_val r c"
  by (auto simp: digit_val_def byte_lower_char is_upper_def Let_def)

lemma is_hexdigit_digit_char: "d < 16 \<Longrightarrow> is_hexdigit (digit_char d)"
  using digit_val_16_iff [of "digit_char d"] by simp

lemma is_digit_digit_char: "d < 10 \<Longrightarrow> is_digit (digit_char d)"
  using digit_val_10_iff [of "digit_char d"] by simp

lemma digit_val_0 [simp]: "0 < r \<Longrightarrow> digit_val r (CHR ''0'') = Some 0"
  by (simp add: digit_val_def byte_def)

lemma is_hexdigit_0 [simp]: "is_hexdigit (CHR ''0'')"
  by (simp add: class_defs byte_def)

subsection \<open>The value of a digit string\<close>

fun num_val :: "nat \<Rightarrow> nat \<Rightarrow> str \<Rightarrow> nat option" where
  "num_val r acc [] = Some acc"
| "num_val r acc (c # cs) =
     (case digit_val r c of None \<Rightarrow> None | Some d \<Rightarrow> num_val r (acc * r + d) cs)"

lemma num_val_ge: "num_val r acc s = Some n \<Longrightarrow> 0 < r \<Longrightarrow> acc \<le> n"
proof (induction s arbitrary: acc)
  case (Cons c cs)
  then obtain d where "num_val r (acc * r + d) cs = Some n" by (auto split: option.splits)
  with Cons have "acc * r + d \<le> n" by blast
  moreover have "acc \<le> acc * r" using \<open>0 < r\<close> by simp
  ultimately show ?case by linarith
qed simp

lemma accum_Inr_iff:
  assumes "0 < r" and "acc < lim"
  shows "accum lim r acc s = Inr n \<longleftrightarrow> num_val r acc s = Some n \<and> n < lim"
  using assms(2)
proof (induction s arbitrary: acc)
  case (Cons c cs)
  show ?case
  proof (cases "digit_val r c")
    case (Some d)
    show ?thesis
    proof (cases "acc * r + d < lim")
      case False
      then have "\<not> n < lim" if "num_val r (acc * r + d) cs = Some n"
        using num_val_ge [OF that assms(1)] by linarith
      with False Some show ?thesis by auto
    qed (use Cons Some in simp)
  qed simp
qed auto

lemma num_val_append: "num_val r acc (s @ t) = Option.bind (num_val r acc s) (\<lambda>n. num_val r n t)"
  by (induction s arbitrary: acc) (auto split: option.splits)

lemma num_val_zeros: "0 < r \<Longrightarrow> num_val r 0 (replicate k (CHR ''0'') @ s) = num_val r 0 s"
  by (induction k) simp_all

lemma num_val_hexdigits: "num_val 16 acc s \<noteq> None \<longleftrightarrow> list_all is_hexdigit s"
  by (induction s arbitrary: acc) (auto split: option.splits simp flip: digit_val_16_iff)

lemma num_val_bound: "num_val r acc s = Some n \<Longrightarrow> n < Suc acc * r ^ length s"
proof (induction s arbitrary: acc)
  case (Cons c cs)
  then obtain d where d: "digit_val r c = Some d" and n: "num_val r (acc * r + d) cs = Some n"
    by (auto split: option.splits)
  have "Suc (acc * r + d) \<le> Suc acc * r" using digit_val_lt [OF d] by simp
  then have "Suc (acc * r + d) * r ^ length cs \<le> Suc acc * r * r ^ length cs"
    by (rule mult_right_mono) simp
  with Cons.IH [OF n] show ?case by (simp add: algebra_simps)
qed simp

lemma num_val_show: "2 \<le> r \<Longrightarrow> r \<le> 16 \<Longrightarrow> num_val r 0 (show_radix r n) = Some n"
proof (induction r n rule: show_radix.induct)
  case (1 r n)
  show ?case
  proof (cases "n < r")
    case True
    with 1 show ?thesis by (simp add: show_radix.simps [of r n])
  next
    case False
    with 1 have "num_val r 0 (show_radix r (n div r)) = Some (n div r)" by simp
    with 1 False show ?thesis
      by (simp add: show_radix.simps [of r n] num_val_append)
  qed
qed

lemma show_radix_nonempty [simp]: "show_radix r n \<noteq> []"
  by (subst show_radix.simps) simp

lemma show_radix_hexdigits: "list_all is_hexdigit (show_radix 16 n)"
proof -
  have "num_val 16 0 (show_radix 16 n) \<noteq> None" by (simp add: num_val_show)
  then show ?thesis by (simp only: num_val_hexdigits)
qed

lemma show_radix_alnum:
  "2 \<le> r \<Longrightarrow> r \<le> 16 \<Longrightarrow> list_all is_alnum (show_radix r n)"
proof (induction r n rule: show_radix.induct)
  case (1 r n)
  have "is_alnum (digit_char d)" if "d < r" for d
    using that 1 by (auto intro!: is_hexdigit_alnum is_hexdigit_digit_char)
  with 1 show ?case by (subst show_radix.simps) auto
qed

lemma show_radix_digits: "list_all is_digit (show_radix 10 n)"
proof (induction "10::nat" n rule: show_radix.induct)
  case (1 n)
  then show ?case by (subst show_radix.simps) (auto simp: is_digit_digit_char)
qed

lemma length_show_radix:
  "2 \<le> r \<Longrightarrow> n < r ^ Suc k \<Longrightarrow> length (show_radix r n) \<le> Suc k"
proof (induction k arbitrary: n)
  case 0
  then show ?case by (simp add: show_radix.simps [of r n])
next
  case (Suc k)
  show ?case
  proof (cases "n < r")
    case False
    have "n div r < r ^ Suc k" using Suc.prems by (simp add: less_mult_imp_div_less mult.commute)
    with Suc False show ?thesis by (simp add: show_radix.simps [of r n])
  qed (simp add: show_radix.simps [of r n])
qed

subsection \<open>Parsing what was printed\<close>

lemma is_hexdigit_not_sign: "is_hexdigit c \<Longrightarrow> c \<noteq> CHR ''+'' \<and> c \<noteq> CHR ''-''"
  by (auto simp: class_defs byte_def)

lemma from_radix_unsigned:
  assumes "s \<noteq> []" and "hd s \<noteq> CHR ''+''" and "hd s \<noteq> CHR ''-''" and "0 < r" and "0 < lim"
  shows "from_radix lim r s = Inr n \<longleftrightarrow> num_val r 0 s = Some n \<and> n < lim"
proof -
  have "from_radix lim r s = accum lim r 0 s"
    using assms by (cases s) (auto simp: from_radix_def)
  then show ?thesis using assms by (simp add: accum_Inr_iff)
qed

lemma from_radix_hex:
  assumes "list_all is_hexdigit s" and "s \<noteq> []" and "0 < lim"
  shows "from_radix lim 16 s = Inr n \<longleftrightarrow> num_val 16 0 s = Some n \<and> n < lim"
  using assms is_hexdigit_not_sign [of "hd s"]
  by (intro from_radix_unsigned) (auto simp: list_all_iff)

lemma from_radix_empty [simp]: "from_radix lim r [] = Inl EmptyInt"
  by (simp add: from_radix_def)

lemma u64_hex_digits:
  assumes "list_all is_hexdigit s" and "s \<noteq> []"
  shows "u64_from_radix 16 s = Inr a \<longleftrightarrow> num_val 16 0 s = Some (unat a)"
proof -
  have "u64_from_radix 16 s = Inr a
      \<longleftrightarrow> (\<exists>n. num_val 16 0 s = Some n \<and> n < 2 ^ 64 \<and> (of_nat n :: u64) = a)"
    by (simp only: u64_from_radix_def and_then_Inr_iff from_radix_hex [OF assms] sum.inject
        zero_less_power zero_less_numeral conj_assoc)
  also have "\<dots> \<longleftrightarrow> num_val 16 0 s = Some (unat a)"
    using unat_of_nat_u64 unat_u64_lt by (metis of_nat_unat_u64)
  finally show ?thesis .
qed

lemma pad_hexdigits: "list_all is_hexdigit (pad k (show_radix 16 n))"
  by (simp add: pad_def show_radix_hexdigits list_all_iff [of _ "replicate _ _"])

lemma pad_nonempty [simp]: "s \<noteq> [] \<Longrightarrow> pad k s \<noteq> []"
  by (simp add: pad_def)

lemma length_pad: "length s \<le> k \<Longrightarrow> length (pad k s) = k"
  by (simp add: pad_def)

lemma num_val_pad: "2 \<le> r \<Longrightarrow> r \<le> 16 \<Longrightarrow> num_val r 0 (pad k (show_radix r n)) = Some n"
  by (simp add: pad_def num_val_zeros num_val_show)

lemma u64_from_hex_pad [simp]: "u64_from_radix 16 (pad k (show_radix 16 (unat a))) = Inr a"
  by (subst u64_hex_digits) (simp_all add: pad_hexdigits num_val_pad)

lemma u64_from_hex_show [simp]: "u64_from_radix 16 (show_radix 16 (unat a)) = Inr a"
  by (subst u64_hex_digits) (simp_all add: show_radix_hexdigits num_val_show)

lemma show_radix_sign:
  assumes "2 \<le> r" and "r \<le> 16"
  shows "hd (show_radix r n) \<noteq> CHR ''+'' \<and> hd (show_radix r n) \<noteq> CHR ''-''"
proof -
  have "is_alnum (hd (show_radix r n))"
    using show_radix_alnum [OF assms] by (metis list.pred_set list.set_sel(1) show_radix_nonempty)
  then show ?thesis by (auto simp: class_defs byte_def)
qed

lemma from_radix_show:
  assumes "2 \<le> r" and "r \<le> 16" and "n < lim"
  shows "from_radix lim r (show_radix r n) = Inr n"
  using assms show_radix_sign [OF assms(1,2), of n]
  by (subst from_radix_unsigned) (simp_all add: num_val_show)

lemma u64_parse_show [simp]: "u64_from_radix 10 (show_nat (unat a)) = Inr a"
  using from_radix_show [of 10 "unat a" "2 ^ 64"] unat_u64_lt [of a]
  by (simp add: u64_from_radix_def show_nat_def)

lemma length_hex_u64: "length (show_radix 16 (unat (a :: u64))) \<le> 16"
  using length_show_radix [of 16 "unat a" 15] unat_u64_lt [of a] by simp

lemma length_hex16 [simp]: "length (hex16 a) = 18"
  by (simp add: hex16_def length_pad length_hex_u64)

lemma length_hex2 [simp]: "length (hex2 b) = 2"
  using length_show_radix [of 16 "unat b" 1] unat_u8_lt [of b]
  by (simp add: hex2_def length_pad)

lemma hex2_hexdigits: "list_all is_hexdigit (hex2 b)"
  by (simp add: hex2_def pad_hexdigits)

lemma hexdigits_printing: "list_all is_hexdigit s \<Longrightarrow> printing s"
  by (auto simp: printing_def list_all_iff class_defs)

subsection \<open>The printed forms are codecs\<close>

definition parse_hex16 :: "str \<Rightarrow> u64 option" where
  "parse_hex16 s = Option.bind (strip_prefix ''0x'' s) (\<lambda>t. result_ok (u64_from_radix 16 t))"

interpretation hex16: codec hex16 parse_hex16
  by unfold_locales (simp add: parse_hex16_def hex16_def strip_prefix_def)

interpretation hexn: codec hexn parse_hex16
  by unfold_locales (simp add: parse_hex16_def hexn_def strip_prefix_def)

interpretation decimal: codec "\<lambda>a :: u64. show_nat (unat a)" "\<lambda>s. result_ok (u64_from_radix 10 s)"
  by unfold_locales simp

end
