(* ===== verification/Bytes.thy ===== *)
theory Bytes
  imports Rust_Int
begin

section \<open>Little-endian bytes and fixed-width encodings\<close>

text \<open>
  \<open>from_ne_bytes\<close> on the program's targets (x86-64 and little-endian AArch64) and the byte image
  of an unsigned integer in memory. A fixed-width codec is a codec into byte lists of one
  length; its lemmas say that encodings can be read back from the front of a longer list, and
  that lists of encodings are injective.
\<close>

fun le_val :: "u8 list \<Rightarrow> nat" where
  "le_val [] = 0"
| "le_val (b # bs) = unat b + 256 * le_val bs"

fun le_bytes :: "nat \<Rightarrow> nat \<Rightarrow> u8 list" where
  "le_bytes 0 n = []"
| "le_bytes (Suc k) n = of_nat (n mod 256) # le_bytes k (n div 256)"

definition from_le :: "u8 list \<Rightarrow> 'a::len word" where
  "from_le bs = of_nat (le_val bs)"

definition to_le :: "nat \<Rightarrow> 'a::len word \<Rightarrow> u8 list" where
  "to_le k w = le_bytes k (unat w)"

lemma length_le_bytes [simp]: "length (le_bytes k n) = k"
  by (induction k arbitrary: n) simp_all

lemma length_to_le [simp]: "length (to_le k w) = k"
  by (simp add: to_le_def)

lemma le_val_le_bytes: "le_val (le_bytes k n) = n mod 256 ^ k"
proof (induction k arbitrary: n)
  case (Suc k)
  have "unat (of_nat (n mod 256) :: u8) = n mod 256"
    by (simp add: unat_of_nat take_bit_nat_def)
  with Suc show ?case by (simp add: mod_mult2_eq)
qed simp

lemma from_le_to_le: "2 ^ LENGTH('a) \<le> (256::nat) ^ k \<Longrightarrow> from_le (to_le k w) = w"
  for w :: "'a::len word"
proof -
  assume "2 ^ LENGTH('a) \<le> (256::nat) ^ k"
  moreover have "unat w < 2 ^ LENGTH('a)" by (rule unsigned_less)
  ultimately have "unat w mod 256 ^ k = unat w" by (intro mod_less) (rule less_le_trans)
  then show ?thesis by (simp add: from_le_def to_le_def le_val_le_bytes)
qed

definition dec_le :: "nat \<Rightarrow> u8 list \<Rightarrow> 'a::len word option" where
  "dec_le k bs = (if length bs = k then Some (from_le bs) else None)"

subsection \<open>Contract: encodings of one length\<close>

locale fixed_codec = codec enc dec
  for enc :: "'a \<Rightarrow> 'b list" and dec :: "'b list \<Rightarrow> 'a option" +
  fixes width :: nat
  assumes length_enc: "length (enc x) = width"
begin

lemma dec_take: "dec (take width (enc x @ rest)) = Some x"
  by (simp add: dec_enc length_enc)

lemma drop_enc: "drop width (enc x @ rest) = rest"
  by (simp add: length_enc)

lemma enc_append_inject: "enc x @ r = enc y @ s \<longleftrightarrow> x = y \<and> r = s"
  using length_enc enc_inject by auto

lemma length_concat_enc: "length (concat (map enc xs)) = width * length xs"
  by (induction xs) (simp_all add: length_enc)

lemma concat_enc_inject:
  "length xs = length ys \<Longrightarrow> concat (map enc xs) = concat (map enc ys) \<longleftrightarrow> xs = ys"
  by (induction xs ys rule: list_induct2) (simp_all add: enc_append_inject)

end

interpretation le16: fixed_codec "to_le 2 :: u16 \<Rightarrow> u8 list" "dec_le 2" 2
  by unfold_locales (simp_all add: dec_le_def from_le_to_le)

interpretation le32: fixed_codec "to_le 4 :: u32 \<Rightarrow> u8 list" "dec_le 4" 4
  by unfold_locales (simp_all add: dec_le_def from_le_to_le)

interpretation le64: fixed_codec "to_le 8 :: u64 \<Rightarrow> u8 list" "dec_le 8" 8
  by unfold_locales (simp_all add: dec_le_def from_le_to_le)

interpretation hex_byte: fixed_codec hex2
    "\<lambda>s. map_option (of_nat :: nat \<Rightarrow> u8) (num_val 16 0 s)" 2
  by unfold_locales (simp_all add: length_hex2 flip: hex2_def, simp add: hex2_def num_val_pad)

end
