(* ===== verification/Arch.thy ===== *)
theory Arch
  imports Rust_Str
begin

section \<open>Target architectures (src/arch)\<close>

text \<open>
  The two register sets the program can be built for. \<open>cfg(target_arch)\<close> is a parameter of
  type \<open>arch\<close>; the constant \<open>SAMPLE_REGS_USER\<close> is the perf register mask, and
  \<open>regs_count\<close> its population count.
\<close>

datatype arch = X86_64 | Aarch64

text \<open>A quantifier over the targets is a conjunction, so it can be evaluated.\<close>

lemma UNIV_arch: "UNIV = {X86_64, Aarch64}"
  by (auto intro: arch.exhaust)

instantiation arch :: enum
begin

definition enum_arch :: "arch list" where
  "enum_arch = [X86_64, Aarch64]"

definition enum_all_arch :: "(arch \<Rightarrow> bool) \<Rightarrow> bool" where
  "enum_all_arch P \<longleftrightarrow> P X86_64 \<and> P Aarch64"

definition enum_ex_arch :: "(arch \<Rightarrow> bool) \<Rightarrow> bool" where
  "enum_ex_arch P \<longleftrightarrow> P X86_64 \<or> P Aarch64"

instance
  by standard (simp_all add: UNIV_arch enum_arch_def enum_all_arch_def enum_ex_arch_def)

end

definition SAMPLE_REGS_USER :: "arch \<Rightarrow> u64" where
  "SAMPLE_REGS_USER a =
     (case a of X86_64 \<Rightarrow> 0b111111110000111111111111 | Aarch64 \<Rightarrow> 2 ^ 33 - 1)"

definition regs_count :: "arch \<Rightarrow> nat" where
  "regs_count a = length (filter (\<lambda>i. bit (SAMPLE_REGS_USER a) i) [0..<64])"

definition x86_names :: "str list" where
  "x86_names = [''ax'', ''bx'', ''cx'', ''dx'', ''si'', ''di'', ''bp'', ''sp'', ''ip'', ''flags'',
     ''cs'', ''ss'', ''r8'', ''r9'', ''r10'', ''r11'', ''r12'', ''r13'', ''r14'', ''r15'']"

definition aarch64_names :: "str list" where
  "aarch64_names = [''x0'', ''x1'', ''x2'', ''x3'', ''x4'', ''x5'', ''x6'', ''x7'', ''x8'', ''x9'',
     ''x10'', ''x11'', ''x12'', ''x13'', ''x14'', ''x15'', ''x16'', ''x17'', ''x18'', ''x19'',
     ''x20'', ''x21'', ''x22'', ''x23'', ''x24'', ''x25'', ''x26'', ''x27'', ''x28'',
     ''fp'', ''lr'', ''sp'', ''pc'']"

fun reg_names :: "arch \<Rightarrow> str list" where
  "reg_names X86_64 = x86_names"
| "reg_names Aarch64 = aarch64_names"

definition id_to_str :: "arch \<Rightarrow> nat \<Rightarrow> str" where
  "id_to_str a i = (if i < length (reg_names a) then reg_names a ! i else ''unknown'')"

lemma length_reg_names: "length (reg_names X86_64) = 20" "length (reg_names Aarch64) = 33"
  by (simp_all add: x86_names_def aarch64_names_def)

lemma regs_count_X86_64 [simp]: "regs_count X86_64 = 20"
  by (simp add: regs_count_def SAMPLE_REGS_USER_def upt_rec numeral_eq_Suc)

lemma regs_count_Aarch64 [simp]: "regs_count Aarch64 = 33"
proof -
  have "SAMPLE_REGS_USER Aarch64 = mask 33"
    by (simp only: SAMPLE_REGS_USER_def arch.case mask_eq_exp_minus_1)
  then have "bit (SAMPLE_REGS_USER Aarch64) i \<longleftrightarrow> i < 33" if "i < 64" for i
    using that by (simp only: bit_mask_iff) simp
  then have "filter (\<lambda>i. bit (SAMPLE_REGS_USER Aarch64) i) [0..<64] = filter (\<lambda>i. i < 33) [0..<64]"
    by (intro filter_cong) simp_all
  also have "\<dots> = filter (\<lambda>i. i < 33) ([0..<33] @ [33..<64])"
    using upt_add_eq_append [of 0 33 31] by simp
  also have "\<dots> = [0..<33]" by (simp add: filter_id_conv filter_empty_conv)
  finally show ?thesis by (simp add: regs_count_def)
qed

lemma regs_count_names: "regs_count a = length (reg_names a)"
  by (cases a) (simp_all only: regs_count_X86_64 regs_count_Aarch64 length_reg_names)

text \<open>Register names are non-empty lower-case words, pairwise distinct.\<close>

definition reg_word :: "str \<Rightarrow> bool" where
  "reg_word s \<longleftrightarrow> s \<noteq> [] \<and> list_all (\<lambda>c. is_lower c \<or> is_digit c) s"

lemma reg_names_all: "\<forall>a. list_all reg_word (reg_names a) \<and> distinct (reg_names a)"
  by code_simp

lemma reg_names_ok: "list_all reg_word (reg_names a)" "distinct (reg_names a)"
  using reg_names_all by blast+

lemma id_to_str_word: "i < regs_count a \<Longrightarrow> reg_word (id_to_str a i)"
  using reg_names_ok(1) [of a] by (simp add: id_to_str_def regs_count_names list_all_length)

lemma id_to_str_inject:
  "i < regs_count a \<Longrightarrow> j < regs_count a \<Longrightarrow> id_to_str a i = id_to_str a j \<longleftrightarrow> i = j"
  using reg_names_ok(2) [of a] by (simp add: id_to_str_def regs_count_names nth_eq_iff_index_eq)

lemma reg_word_lower: "reg_word s \<Longrightarrow> to_ascii_lowercase s = s"
  by (auto simp: reg_word_def to_ascii_lowercase_def list_all_iff class_defs intro!: map_idI lower_char_not_upper)

lemma reg_word_alnum: "reg_word s \<Longrightarrow> list_all is_alnum s"
  by (auto simp: reg_word_def list_all_iff is_alnum_def)

end
