(* ===== verification/Sys_Bindings.thy ===== *)
theory Sys_Bindings
  imports Prelude
begin

section \<open>Constants the program takes from other crates\<close>

text \<open>
  \<open>perf_event_open_sys::bindings\<close> and \<open>nix::libc\<close> are not part of the repository. The
  constants the program uses from them are the fields of a record that the definitions take as
  an argument; a property that relies on a relation between them states it as a hypothesis.
  The record \<open>linux\<close> holds the values documented in the Linux user-space ABI and serves the
  witnesses.
\<close>

record sys_bindings =
  HW_BREAKPOINT_R :: u32
  HW_BREAKPOINT_W :: u32
  HW_BREAKPOINT_RW :: u32
  HW_BREAKPOINT_X :: u32
  HW_BREAKPOINT_LEN_1 :: u32
  HW_BREAKPOINT_LEN_2 :: u32
  HW_BREAKPOINT_LEN_4 :: u32
  HW_BREAKPOINT_LEN_8 :: u32
  c_long_size :: u32
  PERF_SAMPLE_TID :: u64
  PERF_SAMPLE_CALLCHAIN :: u64
  PERF_SAMPLE_REGS_USER :: u64
  PERF_RECORD_SAMPLE :: u32
  PERF_RECORD_LOST :: u32
  PERF_TYPE_BREAKPOINT :: u32
  PERF_FLAG_FD_CLOEXEC :: u32
  perf_attr_size :: u32
  ENOTTY :: i32

definition linux :: sys_bindings where
  "linux = \<lparr> HW_BREAKPOINT_R = 1, HW_BREAKPOINT_W = 2, HW_BREAKPOINT_RW = 3, HW_BREAKPOINT_X = 4,
     HW_BREAKPOINT_LEN_1 = 1, HW_BREAKPOINT_LEN_2 = 2, HW_BREAKPOINT_LEN_4 = 4,
     HW_BREAKPOINT_LEN_8 = 8, c_long_size = 8,
     PERF_SAMPLE_TID = 2, PERF_SAMPLE_CALLCHAIN = 32, PERF_SAMPLE_REGS_USER = 4096,
     PERF_RECORD_SAMPLE = 9, PERF_RECORD_LOST = 2,
     PERF_TYPE_BREAKPOINT = 5, PERF_FLAG_FD_CLOEXEC = 8, perf_attr_size = 136, ENOTTY = 25 \<rparr>"

text \<open>The four access kinds are different codes.\<close>

definition access_kinds_distinct :: "sys_bindings \<Rightarrow> bool" where
  "access_kinds_distinct sys \<longleftrightarrow>
     distinct [HW_BREAKPOINT_R sys, HW_BREAKPOINT_W sys, HW_BREAKPOINT_RW sys, HW_BREAKPOINT_X sys]"

text \<open>A length code is the length itself.\<close>

definition lengths_literal :: "sys_bindings \<Rightarrow> bool" where
  "lengths_literal sys \<longleftrightarrow>
     HW_BREAKPOINT_LEN_1 sys = 1 \<and> HW_BREAKPOINT_LEN_2 sys = 2 \<and>
     HW_BREAKPOINT_LEN_4 sys = 4 \<and> HW_BREAKPOINT_LEN_8 sys = 8"

text \<open>The sample flags the program uses are different bits.\<close>

definition sample_flags_disjoint :: "sys_bindings \<Rightarrow> bool" where
  "sample_flags_disjoint sys \<longleftrightarrow>
     PERF_SAMPLE_TID sys \<noteq> 0 \<and> PERF_SAMPLE_CALLCHAIN sys \<noteq> 0 \<and> PERF_SAMPLE_REGS_USER sys \<noteq> 0 \<and>
     and (PERF_SAMPLE_TID sys) (PERF_SAMPLE_CALLCHAIN sys) = 0 \<and>
     and (PERF_SAMPLE_REGS_USER sys) (PERF_SAMPLE_CALLCHAIN sys) = 0"

lemma linux_sample_flags: "sample_flags_disjoint linux"
  by (simp add: sample_flags_disjoint_def linux_def)

lemma linux_access_kinds: "access_kinds_distinct linux"
  by (simp add: access_kinds_distinct_def linux_def)

lemma linux_lengths: "lengths_literal linux"
  by (simp add: lengths_literal_def linux_def)

end
