(* ===== verification/Perf_Ring.thy ===== *)
theory Perf_Ring
  imports Bytes Arch Sys_Bindings
begin

section \<open>The perf ring buffer reader (src/perf.rs)\<close>

text \<open>
  \<open>SampleData\<close>, the ring reader that fetches integers byte by byte modulo the ring size, the
  decoder of one sample record, the event loop's batch of at most \<open>MAX_EVENTS_PER_READINESS\<close> records
  and the loop around it. The shared page is a parameter: the ring's bytes and the
  value of \<open>data_head\<close> at each look; so are the signals of the kernel that set the readiness the event
  loop waits for and clears. A panic (a remainder by a ring size of 0, a backtrace count whose
  vector exceeds \<open>isize::MAX\<close> bytes) is \<open>None\<close>.
\<close>

subsection \<open>Samples\<close>

record sample_data =
  sd_pid :: u32
  sd_tid :: u32
  sd_regs :: "u64 list"
  sd_backtrace :: "u64 list option"
  sd_simd :: "(u64 \<times> u64) list"

definition MAX_EVENTS_PER_READINESS :: nat where
  "MAX_EVENTS_PER_READINESS = 128"

subsection \<open>RingReader\<close>

record ring_reader =
  rr_data :: "u8 list"
  rr_base :: usize
  rr_offset :: usize

definition ring_byte :: "u8 list \<Rightarrow> usize \<Rightarrow> u8" where
  "ring_byte data pos = data ! (unat pos mod length data)"

fun read_array :: "nat \<Rightarrow> ring_reader \<Rightarrow> (u8 list \<times> ring_reader) option" where
  "read_array 0 r = Some ([], r)"
| "read_array (Suc n) r =
     (if rr_data r = [] then None
      else do {
        (bs, r') \<leftarrow> read_array n (r\<lparr>rr_offset := rr_offset r + 1\<rparr>);
        Some (ring_byte (rr_data r) (rr_base r + rr_offset r) # bs, r')
      })"

definition read_u16 :: "ring_reader \<Rightarrow> (u16 \<times> ring_reader) option" where
  "read_u16 r = do { (bs, r') \<leftarrow> read_array 2 r; Some (from_le bs, r') }"

definition read_u32 :: "ring_reader \<Rightarrow> (u32 \<times> ring_reader) option" where
  "read_u32 r = do { (bs, r') \<leftarrow> read_array 4 r; Some (from_le bs, r') }"

definition read_u64 :: "ring_reader \<Rightarrow> (u64 \<times> ring_reader) option" where
  "read_u64 r = do { (bs, r') \<leftarrow> read_array 8 r; Some (from_le bs, r') }"

fun read_u64s :: "nat \<Rightarrow> ring_reader \<Rightarrow> (u64 list \<times> ring_reader) option" where
  "read_u64s 0 r = Some ([], r)"
| "read_u64s (Suc n) r = do {
     (x, r') \<leftarrow> read_u64 r;
     (xs, r'') \<leftarrow> read_u64s n r';
     Some (x # xs, r'')
   }"

record perf_event_header =
  hdr_type :: u32
  hdr_misc :: u16
  hdr_size :: u16

definition read_header :: "ring_reader \<Rightarrow> (perf_event_header \<times> ring_reader) option" where
  "read_header r = do {
     (t, r1) \<leftarrow> read_u32 r;
     (m, r2) \<leftarrow> read_u16 r1;
     (s, r3) \<leftarrow> read_u16 r2;
     Some (\<lparr>hdr_type = t, hdr_misc = m, hdr_size = s\<rparr>, r3)
   }"

subsection \<open>One sample record\<close>

text \<open>Collecting \<open>n\<close> words into a vector panics beyond \<open>isize::MAX\<close> bytes.\<close>

definition read_callchain :: "ring_reader \<Rightarrow> (u64 list \<times> ring_reader) option" where
  "read_callchain r = do {
     (n, r') \<leftarrow> read_u64 r;
     (if 8 * unat n < 2 ^ 63 then read_u64s (unat n) r' else None)
   }"

definition read_sample ::
  "sys_bindings \<Rightarrow> arch \<Rightarrow> u64 \<Rightarrow> ring_reader \<Rightarrow> (sample_data option \<times> ring_reader) option" where
  "read_sample sys a sample_type r = do {
     (pid, tid, r1) \<leftarrow>
       (if and sample_type (PERF_SAMPLE_TID sys) \<noteq> 0 then do {
          (p, q) \<leftarrow> read_u32 r;
          (t, q') \<leftarrow> read_u32 q;
          Some (p, t, q')
        } else Some (0, 0, r));
     (bt, r2) \<leftarrow>
       (if and sample_type (PERF_SAMPLE_CALLCHAIN sys) \<noteq> 0 then do {
          (fs, q) \<leftarrow> read_callchain r1;
          Some (Some fs, q)
        } else Some (None, r1));
     (if and sample_type (PERF_SAMPLE_REGS_USER sys) \<noteq> 0 then do {
        (abi, r3) \<leftarrow> read_u64 r2;
        (if abi = 0 then Some (None, r3)
         else do {
           (regs, r4) \<leftarrow> read_u64s (regs_count a) r3;
           Some (Some \<lparr>sd_pid = pid, sd_tid = tid, sd_regs = regs, sd_backtrace = bt, sd_simd = []\<rparr>, r4)
         })
      } else
        Some (Some \<lparr>sd_pid = pid, sd_tid = tid, sd_regs = [], sd_backtrace = bt, sd_simd = []\<rparr>, r2))
   }"

subsection \<open>The event loop\<close>

text \<open>
  One turn of the inner loop: the record at \<open>read_data_size\<close>, what it hands to \<open>handle\<close>, and
  the position after it (also written to \<open>data_tail\<close>). A header is 8 bytes.
\<close>

definition process_record ::
  "sys_bindings \<Rightarrow> arch \<Rightarrow> u64 \<Rightarrow> u8 list \<Rightarrow> u64 \<Rightarrow> (sample_data list \<times> u64) option" where
  "process_record sys a sample_type data read_data_size = do {
     (hdr, r) \<leftarrow> read_header \<lparr>rr_data = data, rr_base = read_data_size, rr_offset = 0\<rparr>;
     out \<leftarrow>
       (if hdr_type hdr = PERF_RECORD_SAMPLE sys then do {
          (s, _) \<leftarrow> read_sample sys a sample_type (r\<lparr>rr_offset := 8\<rparr>);
          Some (case s of None \<Rightarrow> [] | Some d \<Rightarrow> [d])
        }
        else if hdr_type hdr = PERF_RECORD_LOST sys then do {
          (_, _) \<leftarrow> read_u64 (r\<lparr>rr_offset := 8\<rparr>);
          Some []
        }
        else Some []);
     Some (out, read_data_size + ucast (hdr_size hdr))
   }"

text \<open>
  The inner loop with \<open>n\<close> turns left: \<open>heads\<close> gives the value of \<open>data_head\<close> at each test.
  It returns the samples handled, the position reached and the number of records processed.
\<close>

fun process_batch ::
  "sys_bindings \<Rightarrow> arch \<Rightarrow> u64 \<Rightarrow> u8 list \<Rightarrow> (nat \<Rightarrow> u64) \<Rightarrow> nat \<Rightarrow> u64
    \<Rightarrow> (sample_data list \<times> u64 \<times> nat) option" where
  "process_batch sys a st data heads 0 pos = Some ([], pos, 0)"
| "process_batch sys a st data heads (Suc n) pos =
     (if heads 0 = pos then Some ([], pos, 0)
      else do {
        (out, pos') \<leftarrow> process_record sys a st data pos;
        (outs, pos'', k) \<leftarrow> process_batch sys a st data (\<lambda>i. heads (Suc i)) n pos';
        Some (out @ outs, pos'', Suc k)
      })"

definition drain_ready ::
  "sys_bindings \<Rightarrow> arch \<Rightarrow> u64 \<Rightarrow> u8 list \<Rightarrow> (nat \<Rightarrow> u64) \<Rightarrow> u64
    \<Rightarrow> (sample_data list \<times> u64 \<times> nat) option" where
  "drain_ready sys a st data heads pos =
     process_batch sys a st data heads MAX_EVENTS_PER_READINESS pos"

subsection \<open>What the ring holds, wrap-around included\<close>

text \<open>
  \<open>ring_holds data pos bs\<close>: reading the ring forward from the running position \<open>pos\<close>, modulo
  the ring size, gives the bytes \<open>bs\<close>.
\<close>

fun ring_holds :: "u8 list \<Rightarrow> u64 \<Rightarrow> u8 list \<Rightarrow> bool" where
  "ring_holds data pos [] \<longleftrightarrow> data \<noteq> []"
| "ring_holds data pos (b # bs) \<longleftrightarrow> ring_byte data pos = b \<and> ring_holds data (pos + 1) bs"

lemma ring_holds_nonempty: "ring_holds data pos bs \<Longrightarrow> data \<noteq> []"
  by (induction bs arbitrary: pos) auto

lemma ring_holds_append [simp]:
  "ring_holds data pos (xs @ ys) \<longleftrightarrow>
     ring_holds data pos xs \<and> ring_holds data (pos + of_nat (length xs)) ys"
proof (induction xs arbitrary: pos)
  case Nil
  then show ?case using ring_holds_nonempty by auto
qed (simp add: add.assoc)

abbreviation reader :: "u8 list \<Rightarrow> u64 \<Rightarrow> u64 \<Rightarrow> ring_reader" where
  "reader data b off \<equiv> \<lparr>rr_data = data, rr_base = b, rr_offset = off\<rparr>"

lemma read_array_holds:
  "ring_holds data (b + off) bs \<Longrightarrow> n = length bs \<Longrightarrow>
     read_array n (reader data b off) = Some (bs, reader data b (off + of_nat n))"
proof (induction bs arbitrary: n off)
  case (Cons x xs)
  have "data \<noteq> []" by (rule ring_holds_nonempty [OF Cons.prems(1)])
  moreover have "ring_holds data (b + (off + 1)) xs"
    using Cons.prems(1) by (simp add: add.assoc)
  note Cons.IH [OF this refl]
  ultimately show ?case using Cons.prems by (simp add: add.assoc)
qed simp

lemma read_u16_holds:
  "ring_holds data (b + off) (to_le 2 w) \<Longrightarrow>
     read_u16 (reader data b off) = Some (w, reader data b (off + 2))"
  by (simp add: read_u16_def read_array_holds from_le_to_le)

lemma read_u32_holds:
  "ring_holds data (b + off) (to_le 4 w) \<Longrightarrow>
     read_u32 (reader data b off) = Some (w, reader data b (off + 4))"
  by (simp add: read_u32_def read_array_holds from_le_to_le)

lemma read_u64_holds:
  "ring_holds data (b + off) (to_le 8 w) \<Longrightarrow>
     read_u64 (reader data b off) = Some (w, reader data b (off + 8))"
  by (simp add: read_u64_def read_array_holds from_le_to_le)

lemma read_u64s_holds:
  "ring_holds data (b + off) (concat (map (to_le 8) ws)) \<Longrightarrow> n = length ws \<Longrightarrow>
     read_u64s n (reader data b off) = Some (ws, reader data b (off + of_nat (8 * n)))"
proof (induction ws arbitrary: n off)
  case (Cons w ws)
  have w: "ring_holds data (b + off) (to_le 8 w)"
    and ws: "ring_holds data (b + (off + 8)) (concat (map (to_le 8) ws))"
    using Cons.prems(1) by (simp_all add: add.assoc)
  show ?case
    using Cons.IH [OF ws refl] Cons.prems(2) by (simp add: read_u64_holds [OF w] algebra_simps)
qed simp

lemmas read_holds = read_u16_holds read_u32_holds read_u64_holds read_u64s_holds

subsection \<open>The layout the kernel writes\<close>

text \<open>
  The fields of a sample record in the order \<open>perf_event_open(2)\<close> documents for the three
  flags the program sets, and a whole record with its header and any trailing bytes.
\<close>

definition encode_sample :: "sys_bindings \<Rightarrow> u64 \<Rightarrow> u64 \<Rightarrow> sample_data \<Rightarrow> u8 list" where
  "encode_sample sys st abi s =
     (if and st (PERF_SAMPLE_TID sys) \<noteq> 0 then to_le 4 (sd_pid s) @ to_le 4 (sd_tid s) else [])
     @ (case sd_backtrace s of None \<Rightarrow> []
        | Some fs \<Rightarrow> to_le 8 (of_nat (length fs) :: u64) @ concat (map (to_le 8) fs))
     @ (if and st (PERF_SAMPLE_REGS_USER sys) \<noteq> 0
        then to_le 8 abi @ concat (map (to_le 8) (sd_regs s)) else [])"

text \<open>A sample that a record of the given \<open>sample_type\<close> can carry.\<close>

definition sample_fits :: "sys_bindings \<Rightarrow> arch \<Rightarrow> u64 \<Rightarrow> sample_data \<Rightarrow> bool" where
  "sample_fits sys a st s \<longleftrightarrow>
     (and st (PERF_SAMPLE_TID sys) = 0 \<longrightarrow> sd_pid s = 0 \<and> sd_tid s = 0) \<and>
     (sd_backtrace s \<noteq> None \<longleftrightarrow> and st (PERF_SAMPLE_CALLCHAIN sys) \<noteq> 0) \<and>
     (\<forall>fs. sd_backtrace s = Some fs \<longrightarrow> length fs < 2 ^ 13) \<and>
     length (sd_regs s) = (if and st (PERF_SAMPLE_REGS_USER sys) \<noteq> 0 then regs_count a else 0) \<and>
     sd_simd s = []"

datatype perf_record =
    SampleRecord u16 u64 sample_data "u8 list"
  | OtherRecord u32 u16 "u8 list"

fun record_body :: "sys_bindings \<Rightarrow> u64 \<Rightarrow> perf_record \<Rightarrow> u8 list" where
  "record_body sys st (SampleRecord misc abi s padding) = encode_sample sys st abi s @ padding"
| "record_body sys st (OtherRecord t misc payload) = payload"

fun encode_record :: "sys_bindings \<Rightarrow> u64 \<Rightarrow> perf_record \<Rightarrow> u8 list" where
  "encode_record sys st r =
     (let body = record_body sys st r; size = of_nat (8 + length body) :: u16 in
      (case r of
         SampleRecord misc _ _ _ \<Rightarrow> to_le 4 (PERF_RECORD_SAMPLE sys) @ to_le 2 misc
       | OtherRecord t misc _ \<Rightarrow> to_le 4 t @ to_le 2 misc)
      @ to_le 2 size @ body)"

fun record_ok :: "sys_bindings \<Rightarrow> arch \<Rightarrow> u64 \<Rightarrow> perf_record \<Rightarrow> bool" where
  "record_ok sys a st (SampleRecord misc abi s padding) \<longleftrightarrow>
     sample_fits sys a st s \<and> 8 + length (encode_sample sys st abi s @ padding) < 2 ^ 16"
| "record_ok sys a st (OtherRecord t misc payload) \<longleftrightarrow>
     t \<noteq> PERF_RECORD_SAMPLE sys \<and> 8 + length payload < 2 ^ 16"

text \<open>What the reader hands on: nothing for a sample whose register ABI is 0.\<close>

fun record_samples :: "sys_bindings \<Rightarrow> u64 \<Rightarrow> perf_record \<Rightarrow> sample_data list" where
  "record_samples sys st (SampleRecord misc abi s padding) =
     (if and st (PERF_SAMPLE_REGS_USER sys) \<noteq> 0 \<and> abi = 0 then [] else [s])"
| "record_samples sys st (OtherRecord t misc payload) = []"

subsection \<open>The reader undoes the layout\<close>

lemma read_array_total:
  "data \<noteq> [] \<Longrightarrow> \<exists>bs. length bs = n \<and> read_array n (reader data b off) = Some (bs, reader data b (off + of_nat n))"
proof (induction n arbitrary: off)
  case (Suc n)
  from Suc.IH [OF Suc.prems, of "off + 1"] Suc.prems show ?case
    by (auto simp: add.assoc)
qed simp

lemma read_u64_total: "data \<noteq> [] \<Longrightarrow> \<exists>w r. read_u64 (reader data b off) = Some (w, r)"
  using read_array_total [of data 8 b off] by (auto simp: read_u64_def)

lemma read_callchain_holds:
  assumes "ring_holds data (b + off) (to_le 8 (of_nat (length fs) :: u64) @ concat (map (to_le 8) fs))"
    and "length fs < 2 ^ 13"
  shows "read_callchain (reader data b off) = Some (fs, reader data b (off + 8 + of_nat (8 * length fs)))"
proof -
  have n: "unat (of_nat (length fs) :: u64) = length fs"
    using assms(2) by (intro unat_of_nat_u64) simp
  have len: "ring_holds data (b + off) (to_le 8 (of_nat (length fs) :: u64))"
    and fs: "ring_holds data (b + (off + 8)) (concat (map (to_le 8) fs))"
    using assms(1) by (simp_all add: add.assoc)
  show ?thesis
    using assms(2)
    by (simp add: read_callchain_def read_u64_holds [OF len] n read_u64s_holds [OF fs])
qed

lemma length_concat_le [simp]: "length (concat (map (to_le k) ws)) = k * length ws"
  by (induction ws) simp_all

lemma read_sample_holds:
  assumes "ring_holds data (b + off) (encode_sample sys st abi s)" and "sample_fits sys a st s"
  shows "\<exists>r. read_sample sys a st (reader data b off) =
    Some (if and st (PERF_SAMPLE_REGS_USER sys) \<noteq> 0 \<and> abi = 0 then None else Some s, r)"
proof -
  let ?o1 = "if and st (PERF_SAMPLE_TID sys) \<noteq> 0 then off + 8 else off"
  have s: "s = \<lparr>sd_pid = sd_pid s, sd_tid = sd_tid s, sd_regs = sd_regs s,
      sd_backtrace = sd_backtrace s, sd_simd = []\<rparr>"
    using assms(2) by (simp add: sample_fits_def)
  show ?thesis
  proof (cases "sd_backtrace s")
    case None
    with assms s show ?thesis
      by (auto simp: read_sample_def encode_sample_def sample_fits_def add.assoc read_u32_holds
          read_u64_holds read_u64s_holds split: if_splits)
  next
    case (Some fs)
    then have "length fs < 2 ^ 13" using assms(2) by (simp add: sample_fits_def)
    with Some assms s show ?thesis
      by (auto simp: read_sample_def encode_sample_def sample_fits_def add.assoc read_u32_holds
          read_u64_holds read_u64s_holds read_callchain_holds split: if_splits)
  qed
qed

lemma hdr_size_ucast: "n < 2 ^ 16 \<Longrightarrow> (ucast (of_nat n :: u16) :: u64) = of_nat n"
  by (simp add: word_unat_eq_iff unsigned_ucast_eq unat_of_nat take_bit_nat_def)

lemma length_encode_record: "length (encode_record sys st r) = 8 + length (record_body sys st r)"
  by (cases r) (simp_all add: Let_def)

lemma read_header_holds:
  assumes "ring_holds data pos (to_le 4 t @ to_le 2 m @ to_le 2 sz @ rest)"
  shows "read_header (reader data pos 0) =
      Some (\<lparr>hdr_type = t, hdr_misc = m, hdr_size = sz\<rparr>, reader data pos 8)"
    and "ring_holds data (pos + 8) rest"
proof -
  have t: "ring_holds data (pos + 0) (to_le 4 t)" and m: "ring_holds data (pos + 4) (to_le 2 m)"
    and z: "ring_holds data (pos + 6) (to_le 2 sz)" and r: "ring_holds data (pos + 8) rest"
    using assms by (simp_all add: add.assoc)
  show "read_header (reader data pos 0) =
      Some (\<lparr>hdr_type = t, hdr_misc = m, hdr_size = sz\<rparr>, reader data pos 8)"
    by (simp add: read_header_def read_u32_holds [OF t] read_u16_holds [OF m] read_u16_holds [OF z])
  show "ring_holds data (pos + 8) rest" by (rule r)
qed

lemma process_record_holds:
  assumes "record_ok sys a st r" and "ring_holds data pos (encode_record sys st r)"
  shows "process_record sys a st data pos =
    Some (record_samples sys st r, pos + of_nat (length (encode_record sys st r)))"
proof (cases r)
  case (SampleRecord misc abi s padding)
  let ?sz = "of_nat (8 + length (encode_sample sys st abi s @ padding)) :: u16"
  have lt: "8 + length (encode_sample sys st abi s @ padding) < 2 ^ 16"
    and fits: "sample_fits sys a st s"
    using assms(1) SampleRecord by simp_all
  have h: "ring_holds data pos (to_le 4 (PERF_RECORD_SAMPLE sys) @ to_le 2 misc @ to_le 2 ?sz
      @ (encode_sample sys st abi s @ padding))"
    using assms(2) SampleRecord by (simp add: Let_def)
  have "ring_holds data (pos + 8) (encode_sample sys st abi s)"
    using read_header_holds(2) [OF h] by simp
  from read_sample_holds [OF this fits] obtain q where
    "read_sample sys a st (reader data pos 8) =
      Some (if and st (PERF_SAMPLE_REGS_USER sys) \<noteq> 0 \<and> abi = 0 then None else Some s, q)" ..
  then show ?thesis
    using SampleRecord hdr_size_ucast [OF lt]
    by (simp add: process_record_def read_header_holds(1) [OF h] Let_def)
next
  case (OtherRecord t misc payload)
  let ?sz = "of_nat (8 + length payload) :: u16"
  have lt: "8 + length payload < 2 ^ 16" and t: "t \<noteq> PERF_RECORD_SAMPLE sys"
    using assms(1) OtherRecord by simp_all
  have h: "ring_holds data pos (to_le 4 t @ to_le 2 misc @ to_le 2 ?sz @ payload)"
    using assms(2) OtherRecord by (simp add: Let_def)
  obtain w q where "read_u64 (reader data pos 8) = Some (w, q)"
    using read_u64_total [OF ring_holds_nonempty [OF h]] by blast
  then show ?thesis
    using OtherRecord t hdr_size_ucast [OF lt]
    by (simp add: process_record_def read_header_holds(1) [OF h] Let_def)
qed

abbreviation encode_records :: "sys_bindings \<Rightarrow> u64 \<Rightarrow> perf_record list \<Rightarrow> u8 list" where
  "encode_records sys st rs \<equiv> concat (map (encode_record sys st) rs)"

lemma word_add_of_nat_neq: "0 < n \<Longrightarrow> n < 2 ^ 64 \<Longrightarrow> pos + of_nat n \<noteq> (pos :: u64)"
  by (metis add_cancel_left_right unat_0 unat_of_nat_u64 less_irrefl)

text \<open>A batch over a ring that holds \<open>rs\<close> and no more handles the first \<open>n\<close> of them.\<close>

lemma process_batch_holds:
  assumes "list_all (record_ok sys a st) rs"
    and "ring_holds data pos (encode_records sys st rs)"
    and "length (encode_records sys st rs) < 2 ^ 64"
  shows "process_batch sys a st data (\<lambda>_. pos + of_nat (length (encode_records sys st rs))) n pos =
    Some (concat (map (record_samples sys st) (take n rs)),
      pos + of_nat (length (encode_records sys st (take n rs))), min n (length rs))"
  using assms
proof (induction n arbitrary: pos rs)
  case (Suc n)
  show ?case
  proof (cases rs)
    case (Cons r rs')
    let ?k = "length (encode_record sys st r)"
    have lens: "length (encode_records sys st rs) = ?k + length (encode_records sys st rs')"
      using Cons by simp
    have r: "process_record sys a st data pos = Some (record_samples sys st r, pos + of_nat ?k)"
      using Suc.prems Cons by (intro process_record_holds) (simp_all del: encode_record.simps)
    have "process_batch sys a st data
        (\<lambda>_. pos + of_nat ?k + of_nat (length (encode_records sys st rs'))) n (pos + of_nat ?k) =
      Some (concat (map (record_samples sys st) (take n rs')),
        pos + of_nat ?k + of_nat (length (encode_records sys st (take n rs'))), min n (length rs'))"
      using Suc.prems Cons by (intro Suc.IH) (simp_all del: encode_record.simps)
    then have IH: "process_batch sys a st data
        (\<lambda>_. pos + of_nat (length (encode_records sys st rs))) n (pos + of_nat ?k) =
      Some (concat (map (record_samples sys st) (take n rs')),
        pos + of_nat ?k + of_nat (length (encode_records sys st (take n rs'))), min n (length rs'))"
      by (simp only: lens of_nat_add add.assoc)
    have "0 < length (encode_records sys st rs)"
      by (simp only: lens length_encode_record)
    then have "pos + of_nat (length (encode_records sys st rs)) \<noteq> pos"
      using Suc.prems(3) by (rule word_add_of_nat_neq)
    then show ?thesis
      using Cons IH r by (simp add: add.assoc del: encode_record.simps)
  qed simp
qed simp

lemma process_batch_bound:
  "process_batch sys a st data heads n pos = Some (out, pos', k) \<Longrightarrow>
     k \<le> n \<and> (k < n \<longrightarrow> heads k = pos')"
proof (induction n arbitrary: heads pos out k)
  case (Suc n)
  show ?case
  proof (cases "heads 0 = pos")
    case False
    with Suc.prems obtain p o1 o2 j where
      "process_batch sys a st data (\<lambda>i. heads (Suc i)) n p = Some (o2, pos', j)" and "k = Suc j"
      by (auto simp: Option.bind_eq_Some_conv)
    with Suc.IH [of "\<lambda>i. heads (Suc i)"] show ?thesis by auto
  qed (use Suc.prems in auto)
qed simp

subsection \<open>The event loop\<close>

text \<open>
  The outer loop, turn by turn. The runtime keeps whether the descriptor is \<open>ready\<close>: the kernel's
  signal sets it (\<open>signals i\<close>: one has come before turn \<open>i\<close>), the loop clears it after a batch only if
  \<open>data_head\<close> is then where it has read to; a turn waits while it is not set. \<open>heads i j\<close> is the
  value of \<open>data_head\<close> at look \<open>j\<close> of turn \<open>i\<close>. The loop has no end of its own, so the model takes the
  number of turns; it returns the samples, whether the descriptor is still held to be ready, the
  position and how often the task has yielded to others after a full batch.
\<close>

fun drain_rounds ::
  "sys_bindings \<Rightarrow> arch \<Rightarrow> u64 \<Rightarrow> u8 list \<Rightarrow> (nat \<Rightarrow> bool) \<Rightarrow> (nat \<Rightarrow> nat \<Rightarrow> u64) \<Rightarrow> nat \<Rightarrow> bool \<Rightarrow> u64
    \<Rightarrow> (sample_data list \<times> bool \<times> u64 \<times> nat) option" where
  "drain_rounds sys a st data signals heads 0 ready pos = Some ([], ready, pos, 0)"
| "drain_rounds sys a st data signals heads (Suc n) ready pos =
     (if ready \<or> signals 0 then do {
        (out, pos', processed) \<leftarrow> drain_ready sys a st data (heads 0) pos;
        (outs, ready', pos'', yields) \<leftarrow>
          drain_rounds sys a st data (\<lambda>i. signals (Suc i)) (\<lambda>i. heads (Suc i)) n
            (heads 0 (Suc processed) \<noteq> pos') pos';
        Some (out @ outs, ready', pos'', (if processed = MAX_EVENTS_PER_READINESS then Suc yields else yields))
      }
      else drain_rounds sys a st data (\<lambda>i. signals (Suc i)) (\<lambda>i. heads (Suc i)) n False pos)"

lemma drain_ready_empty: "drain_ready sys a st data (\<lambda>_. pos) pos = Some ([], pos, 0)"
  by (simp add: drain_ready_def MAX_EVENTS_PER_READINESS_def eval_nat_numeral)

lemma drain_rounds_idle:
  "drain_rounds sys a st data signals (\<lambda>_ _. pos) n False pos = Some ([], False, pos, 0)"
  by (induction n arbitrary: signals) (simp_all add: drain_ready_empty MAX_EVENTS_PER_READINESS_def)

lemma drain_rounds_turn:
  "drain_ready sys a st data (\<lambda>_. head) pos = Some (out, pos', k) \<Longrightarrow>
     drain_rounds sys a st data (\<lambda>i. signals (Suc i)) (\<lambda>_ _. head) n (head \<noteq> pos') pos' = Some (outs, ready, pos'', ys) \<Longrightarrow>
     drain_rounds sys a st data signals (\<lambda>_ _. head) (Suc n) True pos
       = Some (out @ outs, ready, pos'', if k = MAX_EVENTS_PER_READINESS then Suc ys else ys)"
  by simp

lemma drain_rounds_holds:
  assumes "list_all (record_ok sys a st) rs"
    and "ring_holds data pos (encode_records sys st rs)"
    and "length (encode_records sys st rs) < 2 ^ 64"
    and "length rs \<le> MAX_EVENTS_PER_READINESS * n" and "0 < n"
  shows "drain_rounds sys a st data signals (\<lambda>_ _. pos + of_nat (length (encode_records sys st rs))) n True pos =
    Some (concat (map (record_samples sys st) rs), False, pos + of_nat (length (encode_records sys st rs)),
      length rs div MAX_EVENTS_PER_READINESS)"
  using assms
proof (induction n arbitrary: signals pos rs)
  case (Suc n)
  let ?m = MAX_EVENTS_PER_READINESS
  let ?x = "take ?m rs" and ?y = "drop ?m rs"
  let ?len = "\<lambda>rs. length (encode_records sys st rs)"
  let ?head = "pos + of_nat (?len rs)" and ?pos = "pos + of_nat (?len ?x)"
  let ?signals = "\<lambda>i. signals (Suc i)"
  have m: "0 < ?m" by (simp add: MAX_EVENTS_PER_READINESS_def)
  have split: "encode_records sys st rs = encode_records sys st ?x @ encode_records sys st ?y"
    by (metis append_take_drop_id concat_append map_append)
  then have lens: "?len rs = ?len ?x + ?len ?y" by (simp del: encode_record.simps)
  then have pos: "?head = ?pos + of_nat (?len ?y)"
    by (simp del: encode_record.simps add: add.assoc)
  have ready: "drain_ready sys a st data (\<lambda>_. ?head) pos =
      Some (concat (map (record_samples sys st) ?x), ?pos, min ?m (length rs))"
    unfolding drain_ready_def by (rule process_batch_holds [OF Suc.prems(1-3)])
  have out: "concat (map (record_samples sys st) rs)
      = concat (map (record_samples sys st) ?x) @ concat (map (record_samples sys st) ?y)"
    by (metis append_take_drop_id concat_append map_append)
  show ?case
  proof (cases "?y = []")
    case True
    then have head: "?head = ?pos" and short: "length rs \<le> ?m" using pos by (simp_all del: encode_record.simps)
    have rest: "drain_rounds sys a st data ?signals (\<lambda>_ _. ?head) n (?head \<noteq> ?pos) ?pos = Some ([], False, ?pos, 0)"
      unfolding head by (simp add: drain_rounds_idle del: encode_record.simps)
    have "length rs div ?m = (if min ?m (length rs) = ?m then Suc 0 else 0)"
      using short m by (auto simp: min_def)
    moreover have "concat (map (record_samples sys st) rs) = concat (map (record_samples sys st) ?x) @ []"
      unfolding out True by simp
    ultimately show ?thesis using drain_rounds_turn [OF ready rest] by (simp only: head)
  next
    case False
    then have long: "?m < length rs" by simp
    have "0 < ?len ?y"
      using False by (cases ?y) (simp_all add: length_encode_record del: encode_record.simps)
    moreover have y: "?len ?y < 2 ^ 64" using Suc.prems(3) lens by linarith
    ultimately have more: "?head \<noteq> ?pos" unfolding pos by (rule word_add_of_nat_neq)
    have "drain_rounds sys a st data ?signals (\<lambda>_ _. ?pos + of_nat (?len ?y)) n True ?pos =
      Some (concat (map (record_samples sys st) ?y), False, ?pos + of_nat (?len ?y), length ?y div ?m)"
    proof (rule Suc.IH)
      show "list_all (record_ok sys a st) ?y"
        using Suc.prems(1) by (metis append_take_drop_id list_all_append)
      show "ring_holds data ?pos (encode_records sys st ?y)"
        using Suc.prems(2) split by (simp del: encode_record.simps)
      show "?len ?y < 2 ^ 64" by (rule y)
      show "length ?y \<le> ?m * n" using Suc.prems(4) by simp
      then show "0 < n" using long by (cases n) simp_all
    qed
    then have rest: "drain_rounds sys a st data ?signals (\<lambda>_ _. ?head) n (?head \<noteq> ?pos) ?pos =
      Some (concat (map (record_samples sys st) ?y), False, ?head, length ?y div ?m)"
      using more unfolding pos by (simp del: encode_record.simps)
    have "length rs div ?m = Suc (length ?y div ?m)"
      using long m by (simp add: div_if)
    moreover have "min ?m (length rs) = ?m" using long by simp
    ultimately show ?thesis using drain_rounds_turn [OF ready rest] unfolding out by (simp only: if_True refl)
  qed
qed simp

subsection \<open>Opening the event\<close>

text \<open>
  What \<open>PerfMap::new\<close> asks the kernel for. The unset fields of the attributes are zero. The calls
  into the kernel and the runtime are parameters over a world \<open>'k\<close>: \<open>perf_event_open\<close>, \<open>mmap\<close>,
  the version in the mapped page, registration with the runtime, \<open>munmap\<close> and \<open>close\<close>.
\<close>

record perf_attr =
  pa_precise_ip :: u64
  pa_size :: u32
  pa_type :: u32
  pa_sample_period :: u64
  pa_wakeup_events :: u32
  pa_bp_type :: u32
  pa_bp_addr :: u64
  pa_bp_len :: u64
  pa_sample_type :: u64
  pa_exclude_callchain_kernel :: u64
  pa_sample_regs_user :: u64

definition new_attrs :: "sys_bindings \<Rightarrow> arch \<Rightarrow> u32 \<Rightarrow> u64 \<Rightarrow> u64 \<Rightarrow> bool \<Rightarrow> perf_attr" where
  "new_attrs sys a ty addr len backtrace =
     (let attrs = \<lparr>pa_precise_ip = 2, pa_size = perf_attr_size sys, pa_type = PERF_TYPE_BREAKPOINT sys,
            pa_sample_period = 1, pa_wakeup_events = 1, pa_bp_type = ty, pa_bp_addr = addr, pa_bp_len = len,
            pa_sample_type = or (PERF_SAMPLE_REGS_USER sys) (PERF_SAMPLE_TID sys),
            pa_exclude_callchain_kernel = 0, pa_sample_regs_user = 0\<rparr>;
          attrs' = (if backtrace
            then attrs\<lparr>pa_sample_type := or (pa_sample_type attrs) (PERF_SAMPLE_CALLCHAIN sys),
              pa_exclude_callchain_kernel := 0\<rparr>
            else attrs)
      in attrs'\<lparr>pa_sample_regs_user := SAMPLE_REGS_USER a\<rparr>)"

text \<open>The length of the mapping, as a build without overflow checks computes it.\<close>

definition mmap_length :: "usize \<Rightarrow> usize" where
  "mmap_length buf_size = (1 + push_bit (unat buf_size mod 64) 1) * 4096"

record 'k perf_kernel =
  pk_open :: "perf_attr \<Rightarrow> i32 \<Rightarrow> 'k \<Rightarrow> (str + i32) \<times> 'k"
  pk_mmap :: "usize \<Rightarrow> i32 \<Rightarrow> 'k \<Rightarrow> (str + usize) \<times> 'k"
  pk_compat_version :: "usize \<Rightarrow> 'k \<Rightarrow> u32"
  pk_register :: "i32 \<Rightarrow> 'k \<Rightarrow> (str + unit) \<times> 'k"
  pk_munmap :: "usize \<Rightarrow> usize \<Rightarrow> 'k \<Rightarrow> 'k"
  pk_close :: "i32 \<Rightarrow> 'k \<Rightarrow> 'k"

record perf_map =
  pm_addr :: usize
  pm_len :: usize
  pm_fd :: i32
  pm_sample_type :: u64

text \<open>A descriptor that is owned is closed on every early return; the mapping is not undone.\<close>

definition perf_new ::
  "sys_bindings \<Rightarrow> arch \<Rightarrow> 'k perf_kernel \<Rightarrow> u32 \<Rightarrow> u64 \<Rightarrow> u64 \<Rightarrow> i32 \<Rightarrow> usize \<Rightarrow> bool \<Rightarrow> 'k
    \<Rightarrow> (str + perf_map) \<times> 'k" where
  "perf_new sys a P ty addr len pid buf_size backtrace k =
     (let attrs = new_attrs sys a ty addr len backtrace; mlen = mmap_length buf_size
      in case pk_open P attrs pid k of
           (Inl e, k1) \<Rightarrow> (Inl e, k1)
         | (Inr fd, k1) \<Rightarrow>
             (case pk_mmap P mlen fd k1 of
                (Inl e, k2) \<Rightarrow> (Inl e, pk_close P fd k2)
              | (Inr maddr, k2) \<Rightarrow>
                  if pk_compat_version P maddr k2 \<noteq> 0
                  then (Inl ''unsupported mmap_page version'', pk_close P fd k2)
                  else (case pk_register P fd k2 of
                      (Inl e, k3) \<Rightarrow> (Inl e, pk_close P fd k3)
                    | (Inr _, k3) \<Rightarrow>
                        (Inr \<lparr>pm_addr = maddr, pm_len = mlen, pm_fd = fd, pm_sample_type = pa_sample_type attrs\<rparr>, k3))))"

definition perf_drop :: "'k perf_kernel \<Rightarrow> perf_map \<Rightarrow> 'k \<Rightarrow> 'k" where
  "perf_drop P m k = pk_close P (pm_fd m) (if pm_addr m = 0 then k else pk_munmap P (pm_addr m) (pm_len m) k)"

text \<open>The mapping is never empty, so \<open>NonZeroUsize::new\<close> does not fail.\<close>

lemma mmap_length_nonzero: "mmap_length b \<noteq> 0"
proof -
  let ?i = "unat b mod 64"
  have i: "?i < 64" by simp
  have "bit (mmap_length b) 12 \<or> bit (mmap_length b) 13"
  proof (cases "?i = 0")
    case True
    then have "mmap_length b = 8192" by (simp add: mmap_length_def)
    then show ?thesis by simp
  next
    case False
    then have "even (push_bit ?i (1 :: u64))" by (simp add: even_push_bit_iff)
    then have "odd (1 + push_bit ?i (1 :: u64))" by simp
    moreover have "mmap_length b = push_bit 12 (1 + push_bit ?i 1)"
      by (simp add: mmap_length_def push_bit_eq_mult)
    ultimately show ?thesis by (simp add: bit_push_bit_iff bit_0)
  qed
  then show ?thesis by auto
qed

text \<open>The reader looks for exactly the fields that were asked for.\<close>

lemma new_sample_flags:
  assumes "sample_flags_disjoint sys"
  shows "and (pa_sample_type (new_attrs sys a ty addr len bt)) (PERF_SAMPLE_TID sys) \<noteq> 0"
    and "and (pa_sample_type (new_attrs sys a ty addr len bt)) (PERF_SAMPLE_REGS_USER sys) \<noteq> 0"
    and "and (pa_sample_type (new_attrs sys a ty addr len bt)) (PERF_SAMPLE_CALLCHAIN sys) \<noteq> 0 \<longleftrightarrow> bt"
  using assms
  by (auto simp: new_attrs_def Let_def sample_flags_disjoint_def bit.conj_disj_distrib2 or_eq_0_iff)

subsection \<open>Properties\<close>

text \<open>
  C17: one readiness hands on the samples of the first 128 records in the ring, in order and as they
  were written, wherever the ring wraps around; it stops exactly behind them, and a record of
  another type or a sample without registers is passed over whole.
\<close>

theorem batch_reads_records:
  assumes "list_all (record_ok sys a st) rs"
    and "ring_holds data pos (concat (map (encode_record sys st) rs))"
    and "length (concat (map (encode_record sys st) rs)) < 2 ^ 64"
  shows "drain_ready sys a st data (\<lambda>_. pos + of_nat (length (concat (map (encode_record sys st) rs)))) pos =
    Some (concat (map (record_samples sys st) (take 128 rs)),
      pos + of_nat (length (concat (map (encode_record sys st) (take 128 rs)))), min 128 (length rs))"
  using process_batch_holds [OF assms, of MAX_EVENTS_PER_READINESS]
  unfolding drain_ready_def MAX_EVENTS_PER_READINESS_def .

definition demo_record :: perf_record where
  "demo_record = SampleRecord 0 1 \<lparr>sd_pid = 5, sd_tid = 6, sd_regs = [], sd_backtrace = None, sd_simd = []\<rparr> []"

definition demo_ring :: "u8 list" where
  "demo_ring = [5, 0, 0, 0, 6, 0, 0, 0, 9, 0, 0, 0, 0, 0, 16, 0]"

lemma demo_record_ok: "list_all (record_ok linux Aarch64 2) [demo_record]"
  by (simp add: demo_record_def sample_fits_def linux_def encode_sample_def)

lemma demo_ring_holds: "ring_holds demo_ring 8 (concat (map (encode_record linux 2) [demo_record]))"
  by code_simp

text \<open>The record begins in the middle of the ring of 16 bytes and ends, wrapped, at its start.\<close>

theorem batch_reads_records_witness:
  "drain_ready linux Aarch64 2 demo_ring (\<lambda>_. 24) 8 =
     Some ([\<lparr>sd_pid = 5, sd_tid = 6, sd_regs = [], sd_backtrace = None, sd_simd = []\<rparr>], 24, 1)"
proof -
  have len: "length (concat (map (encode_record linux 2) [demo_record])) = 16" by code_simp
  have smp: "concat (map (record_samples linux 2) [demo_record])
      = [\<lparr>sd_pid = 5, sd_tid = 6, sd_regs = [], sd_backtrace = None, sd_simd = []\<rparr>]"
    by (simp add: demo_record_def linux_def)
  from batch_reads_records [OF demo_record_ok demo_ring_holds] len smp show ?thesis by simp
qed

text \<open>
  C18: the event loop gets through any backlog, and one signal of the kernel is enough: once the
  descriptor is ready, as many turns as there are batches of 128 records begun read every record in the
  ring, hand each sample on once and in order and leave the reader at the producer's head. The
  readiness is given up only there, so no turn waits for another signal, and the task yields once after
  every full batch.
\<close>

theorem backlog_drained:
  assumes "list_all (record_ok sys a st) rs"
    and "ring_holds data pos (concat (map (encode_record sys st) rs))"
    and "length (concat (map (encode_record sys st) rs)) < 2 ^ 64"
    and "head = pos + of_nat (length (concat (map (encode_record sys st) rs)))"
    and "length rs \<le> 128 * n" and "0 < n"
  shows "drain_rounds sys a st data signals (\<lambda>_ _. head) n True pos =
    Some (concat (map (record_samples sys st) rs), False, head, length rs div 128)"
proof -
  have "length rs \<le> MAX_EVENTS_PER_READINESS * n"
    using assms(5) by (simp add: MAX_EVENTS_PER_READINESS_def)
  from drain_rounds_holds [OF assms(1-3) this assms(6)] show ?thesis
    unfolding MAX_EVENTS_PER_READINESS_def by (simp only: assms(4))
qed

theorem backlog_drained_witness:
  "drain_rounds linux Aarch64 2 demo_ring (\<lambda>_. False) (\<lambda>_ _. 24) 1 True 8 =
     Some ([\<lparr>sd_pid = 5, sd_tid = 6, sd_regs = [], sd_backtrace = None, sd_simd = []\<rparr>], False, 24, 0)"
proof -
  have len: "length (concat (map (encode_record linux 2) [demo_record])) = 16" by code_simp
  have smp: "concat (map (record_samples linux 2) [demo_record])
      = [\<lparr>sd_pid = 5, sd_tid = 6, sd_regs = [], sd_backtrace = None, sd_simd = []\<rparr>]"
    by (simp add: demo_record_def linux_def)
  have "drain_rounds linux Aarch64 2 demo_ring (\<lambda>_. False) (\<lambda>_ _. 24) 1 True 8 =
     Some (concat (map (record_samples linux 2) [demo_record]), False, 24, length [demo_record] div 128)"
    by (rule backlog_drained [OF demo_record_ok demo_ring_holds]) (simp_all only: len, simp_all)
  then show ?thesis unfolding smp by simp
qed

end
