(* ===== verification/Proc_Maps.thy ===== *)
theory Proc_Maps
  imports Rust_Int
begin

section \<open>Memory maps and address expressions (src/maps.rs)\<close>

text \<open>
  The parser of \<open>/proc/<pid>/maps\<close>, the cache of parsed maps with its one-second freshness,
  the resolution of addresses to regions and of \<open>module+offset\<close> expressions to addresses.
  Reading a file is a parameter \<open>rd\<close> that threads a world; an \<open>Instant\<close> is a number of
  nanoseconds, and \<open>duration_since\<close> saturates at 0 as subtraction on \<open>nat\<close> does.
\<close>

subsection \<open>Data\<close>

record map_region =
  mr_start :: str
  mr_end :: str
  mr_perms :: str
  mr_offset :: str
  mr_dev :: str
  mr_inode :: u64
  mr_pathname :: "str option"

record address_resolution =
  ar_region :: map_region
  ar_module :: str
  ar_offset :: str
  ar_display :: str

record parsed_region =
  pr_start :: u64
  pr_end :: u64
  pr_region :: map_region

record cached_maps =
  loaded_at :: nat
  regions :: "parsed_region list"

record resolved_address =
  ra_expression :: str
  ra_address :: str
  ra_value :: u64
  ra_map :: "map_region option"

record maps_cache =
  mc_entries :: "u32 \<rightharpoonup> cached_maps"
  mc_poisoned :: bool

definition empty_cache :: maps_cache where
  "empty_cache = \<lparr>mc_entries = Map.empty, mc_poisoned = False\<rparr>"

datatype maps_error =
    CachePoisoned
  | ReadFailed str
  | InvalidExpression str
  | MissingModule str
  | InvalidOffset str
  | ModuleNotFound u32 str
  | AddressOverflow str

fun maps_error_text :: "maps_error \<Rightarrow> str" where
  "maps_error_text CachePoisoned = ''maps cache lock poisoned''"
| "maps_error_text (ReadFailed e) = e"
| "maps_error_text (InvalidExpression x) = ''invalid address expression: '' @ x"
| "maps_error_text (MissingModule x) = ''missing module in address expression: '' @ x"
| "maps_error_text (InvalidOffset x) = ''invalid module offset: '' @ x"
| "maps_error_text (ModuleNotFound pid m) =
     ''module not found in pid '' @ show_nat (unat pid) @ '' maps: '' @ m"
| "maps_error_text (AddressOverflow x) = ''resolved address overflow: '' @ x"

subsection \<open>Parsing\<close>

definition parse_numeric_addr :: "str \<Rightarrow> u64 option" where
  "parse_numeric_addr v =
     (if v = [] then None
      else case (case strip_prefix ''0x'' v of Some t \<Rightarrow> Some t | None \<Rightarrow> strip_prefix ''0X'' v) of
          Some h \<Rightarrow> result_ok (u64_from_radix 16 h)
        | None \<Rightarrow> if list_all is_hexdigit v then result_ok (u64_from_radix 16 v) else None)"

definition parse_module_offset :: "str \<Rightarrow> maps_error + (str \<times> u64)" where
  "parse_module_offset e =
     and_then (ok_or (InvalidExpression e) (split_once (CHR ''+'') e)) (\<lambda>(m, off).
       let m = trim m in
       if m = [] then Inl (MissingModule e)
       else and_then (ok_or (InvalidOffset e) (parse_numeric_addr (trim off))) (\<lambda>n. Inr (m, n)))"

definition parse_maps_line :: "str \<Rightarrow> parsed_region option" where
  "parse_maps_line line =
     (case split_ws line of
        rng # perms # offset_raw # dev # inode_raw # path \<Rightarrow> do {
          inode \<leftarrow> result_ok (u64_from_radix 10 inode_raw);
          let pathname = (case path of [] \<Rightarrow> None | _ \<Rightarrow> Some (join '' '' path));
          (start_raw, end_raw) \<leftarrow> split_once (CHR ''-'') rng;
          start \<leftarrow> result_ok (u64_from_radix 16 start_raw);
          end' \<leftarrow> result_ok (u64_from_radix 16 end_raw);
          offset \<leftarrow> result_ok (u64_from_radix 16 offset_raw);
          Some \<lparr>pr_start = start, pr_end = end', pr_region =
            \<lparr>mr_start = hex16 start, mr_end = hex16 end', mr_perms = perms, mr_offset = hexn offset,
              mr_dev = dev, mr_inode = inode, mr_pathname = pathname\<rparr>\<rparr>
        }
      | _ \<Rightarrow> None)"

definition maps_path :: "u32 \<Rightarrow> str" where
  "maps_path pid = ''/proc/'' @ show_nat (unat pid) @ ''/maps''"

definition parse_maps :: "str \<Rightarrow> parsed_region list" where
  "parse_maps content = List.map_filter parse_maps_line (lines content)"

definition read_maps ::
  "('w \<Rightarrow> str \<Rightarrow> (str + str) \<times> 'w) \<Rightarrow> u32 \<Rightarrow> 'w \<Rightarrow> (maps_error + parsed_region list) \<times> 'w" where
  "read_maps rd pid w =
     (case rd w (maps_path pid) of
        (Inl e, w') \<Rightarrow> (Inl (ReadFailed e), w')
      | (Inr content, w') \<Rightarrow> (Inr (parse_maps content), w'))"

subsection \<open>Resolving one address\<close>

definition in_region :: "u64 \<Rightarrow> parsed_region \<Rightarrow> bool" where
  "in_region addr r \<longleftrightarrow> pr_start r \<le> addr \<and> addr < pr_end r"

definition module_label :: "map_region \<Rightarrow> str" where
  "module_label r =
     (case Option.bind (mr_pathname r)
         (\<lambda>p. Option.bind (file_name p) (\<lambda>n. if n = [] then None else Some n)) of
        Some n \<Rightarrow> n
      | None \<Rightarrow> (case mr_pathname r of Some p \<Rightarrow> p | None \<Rightarrow> mr_start r @ ''-'' @ mr_end r))"

definition resolve_one :: "parsed_region list \<Rightarrow> u64 \<Rightarrow> address_resolution option" where
  "resolve_one rs addr =
     map_option (\<lambda>r.
         let offset = saturating_sub addr (pr_start r); m = module_label (pr_region r) in
         \<lparr>ar_region = pr_region r, ar_module = m, ar_offset = hexn offset,
          ar_display = m @ ''+'' @ hexn offset\<rparr>)
       (find (in_region addr) rs)"

definition resolve_against_regions ::
  "parsed_region list \<Rightarrow> u64 list \<Rightarrow> address_resolution option list" where
  "resolve_against_regions rs addrs = map (resolve_one rs) addrs"

subsection \<open>The cache\<close>

definition is_stale :: "nat \<Rightarrow> cached_maps option \<Rightarrow> bool" where
  "is_stale now e = (case e of None \<Rightarrow> True | Some c \<Rightarrow> 1000000000 \<le> now - loaded_at c)"

definition cached_regions :: "maps_cache \<Rightarrow> u32 \<Rightarrow> parsed_region list" where
  "cached_regions c pid = (case mc_entries c pid of None \<Rightarrow> [] | Some e \<Rightarrow> regions e)"

text \<open>
  \<open>regions_with\<close> locks twice. The first critical section answers from the cache
  (\<open>Some\<close>) or asks for a read; the second stores what was read, unless another thread has
  stored a fresh entry in between, and answers from the cache.
\<close>

definition regions_check ::
  "maps_cache \<Rightarrow> nat \<Rightarrow> u32 \<Rightarrow> bool \<Rightarrow> maps_error + parsed_region list option" where
  "regions_check c now pid force_refresh =
     (if mc_poisoned c then Inl CachePoisoned
      else if \<not> force_refresh \<and> \<not> is_stale now (mc_entries c pid)
      then Inr (Some (cached_regions c pid))
      else Inr None)"

definition regions_store ::
  "maps_cache \<Rightarrow> nat \<Rightarrow> u32 \<Rightarrow> bool \<Rightarrow> parsed_region list
    \<Rightarrow> (maps_error + parsed_region list) \<times> maps_cache" where
  "regions_store c now pid force_refresh rs =
     (if mc_poisoned c then (Inl CachePoisoned, c)
      else let c' = (if force_refresh \<or> is_stale now (mc_entries c pid)
                     then c\<lparr>mc_entries := (mc_entries c)(pid \<mapsto> \<lparr>loaded_at = now, regions = rs\<rparr>)\<rparr>
                     else c)
           in (Inr (cached_regions c' pid), c'))"

definition regions_with ::
  "('w \<Rightarrow> str \<Rightarrow> (str + str) \<times> 'w) \<Rightarrow> nat \<Rightarrow> u32 \<Rightarrow> bool \<Rightarrow> maps_cache \<Rightarrow> 'w
    \<Rightarrow> (maps_error + parsed_region list) \<times> maps_cache \<times> 'w" where
  "regions_with rd now pid force_refresh c w =
     (case regions_check c now pid force_refresh of
        Inl e \<Rightarrow> (Inl e, c, w)
      | Inr (Some rs) \<Rightarrow> (Inr rs, c, w)
      | Inr None \<Rightarrow>
          (case read_maps rd pid w of
             (Inl e, w') \<Rightarrow> (Inl e, c, w')
           | (Inr rs, w') \<Rightarrow>
               (case regions_store c now pid force_refresh rs of (r, c') \<Rightarrow> (r, c', w'))))"

definition list_maps ::
  "('w \<Rightarrow> str \<Rightarrow> (str + str) \<times> 'w) \<Rightarrow> nat \<Rightarrow> u32 \<Rightarrow> maps_cache \<Rightarrow> 'w
    \<Rightarrow> (maps_error + map_region list) \<times> maps_cache \<times> 'w" where
  "list_maps rd now pid c w =
     (case regions_with rd now pid True c w of
        (r, c', w') \<Rightarrow> (and_then r (\<lambda>rs. Inr (map pr_region rs)), c', w'))"

definition resolve_cached ::
  "('w \<Rightarrow> str \<Rightarrow> (str + str) \<times> 'w) \<Rightarrow> nat \<Rightarrow> u32 \<Rightarrow> u64 \<Rightarrow> bool \<Rightarrow> maps_cache \<Rightarrow> 'w
    \<Rightarrow> map_region option \<times> maps_cache \<times> 'w" where
  "resolve_cached rd now pid addr force_refresh c w =
     (case regions_with rd now pid force_refresh c w of
        (r, c', w') \<Rightarrow>
          (Option.bind (result_ok r) (\<lambda>rs. map_option pr_region (find (in_region addr) rs)), c', w'))"

definition resolve ::
  "('w \<Rightarrow> str \<Rightarrow> (str + str) \<times> 'w) \<Rightarrow> nat \<Rightarrow> u32 \<Rightarrow> u64 \<Rightarrow> maps_cache \<Rightarrow> 'w
    \<Rightarrow> map_region option \<times> maps_cache \<times> 'w" where
  "resolve rd now pid addr c w =
     (case resolve_cached rd now pid addr False c w of
        (Some r, c', w') \<Rightarrow> (Some r, c', w')
      | (None, c', w') \<Rightarrow> resolve_cached rd now pid addr True c' w')"

text \<open>The refreshed regions fill in only what the cached regions left unresolved.\<close>

definition resolve_many_addresses ::
  "('w \<Rightarrow> str \<Rightarrow> (str + str) \<times> 'w) \<Rightarrow> nat \<Rightarrow> u32 \<Rightarrow> u64 list \<Rightarrow> maps_cache \<Rightarrow> 'w
    \<Rightarrow> address_resolution option list \<times> maps_cache \<times> 'w" where
  "resolve_many_addresses rd now pid addrs c w =
     (if addrs = [] then ([], c, w)
      else case regions_with rd now pid False c w of
        (r, c1, w1) \<Rightarrow>
          let resolved = resolve_against_regions (case r of Inl _ \<Rightarrow> [] | Inr rs \<Rightarrow> rs) addrs in
          if list_ex (\<lambda>x. x = None) resolved then
            (case regions_with rd now pid True c1 w1 of
               (Inl _, c2, w2) \<Rightarrow> (resolved, c2, w2)
             | (Inr refreshed, c2, w2) \<Rightarrow>
                 (map (\<lambda>(idx, v). if v = None then resolve_one refreshed (addrs ! idx) else v)
                    (enumerate 0 resolved), c2, w2))
          else (resolved, c1, w1))"

subsection \<open>Address expressions\<close>

definition module_matches :: "str \<Rightarrow> parsed_region \<Rightarrow> bool" where
  "module_matches m r =
     (let path = (case mr_pathname (pr_region r) of None \<Rightarrow> [] | Some p \<Rightarrow> p);
          lower = to_ascii_lowercase path;
          module_lower = to_ascii_lowercase m
      in lower = module_lower
         \<or> ends_with lower (''/'' @ module_lower)
         \<or> (case file_name path of None \<Rightarrow> False | Some n \<Rightarrow> eq_ignore_ascii_case n m))"

definition resolve_module_offset ::
  "('w \<Rightarrow> str \<Rightarrow> (str + str) \<times> 'w) \<Rightarrow> nat \<Rightarrow> u32 \<Rightarrow> str \<Rightarrow> maps_cache \<Rightarrow> 'w
    \<Rightarrow> (maps_error + u64) \<times> maps_cache \<times> 'w" where
  "resolve_module_offset rd now pid e c w =
     (case parse_module_offset e of
        Inl err \<Rightarrow> (Inl err, c, w)
      | Inr (m, offset) \<Rightarrow>
          (case regions_with rd now pid True c w of
             (r, c', w') \<Rightarrow>
               (and_then r (\<lambda>rs.
                and_then (ok_or (ModuleNotFound pid m)
                    (find (module_matches m) (filter (\<lambda>r. mr_pathname (pr_region r) \<noteq> None) rs)))
                  (\<lambda>r. ok_or (AddressOverflow e) (checked_add (pr_start r) offset))), c', w')))"

text \<open>
  \<open>now1\<close> is the instant of the module lookup, \<open>now2\<close> that of the final region lookup.
\<close>

definition resolve_expression ::
  "('w \<Rightarrow> str \<Rightarrow> (str + str) \<times> 'w) \<Rightarrow> nat \<Rightarrow> nat \<Rightarrow> u32 \<Rightarrow> str \<Rightarrow> maps_cache \<Rightarrow> 'w
    \<Rightarrow> (maps_error + resolved_address) \<times> maps_cache \<times> 'w" where
  "resolve_expression rd now1 now2 pid e c w =
     (case (case parse_numeric_addr (trim e) of
              Some a \<Rightarrow> (Inr a, c, w)
            | None \<Rightarrow> resolve_module_offset rd now1 pid e c w) of
        (Inl err, c1, w1) \<Rightarrow> (Inl err, c1, w1)
      | (Inr a, c1, w1) \<Rightarrow>
          (case resolve rd now2 pid a c1 w1 of
             (m, c2, w2) \<Rightarrow>
               (Inr \<lparr>ra_expression = e, ra_address = hex16 a, ra_value = a, ra_map = m\<rparr>, c2, w2)))"

subsection \<open>Numeric addresses\<close>

lemma strip_0x_hex16: "strip_prefix ''0x'' (hex16 a) = Some (pad 16 (show_radix 16 (unat a)))"
  by (simp add: hex16_def strip_prefix_def)

lemma strip_0x_hexn: "strip_prefix ''0x'' (hexn a) = Some (show_radix 16 (unat a))"
  by (simp add: hexn_def strip_prefix_def)

lemma parse_numeric_hex16 [simp]: "parse_numeric_addr (hex16 a) = Some a"
  by (simp add: parse_numeric_addr_def strip_0x_hex16) (simp add: hex16_def)

lemma parse_numeric_hexn [simp]: "parse_numeric_addr (hexn a) = Some a"
  by (simp add: parse_numeric_addr_def strip_0x_hexn) (simp add: hexn_def)

lemma printing_0x: "printing ''0x''"
  by (simp add: byte_def)

lemma printing_hex16: "printing (hex16 a)"
  using hexdigits_printing [OF pad_hexdigits] printing_0x by (simp only: hex16_def printing_simps)

lemma printing_hexn: "printing (hexn a)"
  using hexdigits_printing [OF show_radix_hexdigits] printing_0x
  by (simp only: hexn_def printing_simps)

lemmas trim_hex [simp] = trim_printing [OF printing_hex16] trim_printing [OF printing_hexn]

subsection \<open>Lines of the maps file\<close>

text \<open>
  A line as the kernel prints it: the range in at least eight hexadecimal digits, permissions,
  file offset, device, inode, and after \<open>k\<close> spaces the words of the path, if there is one.
\<close>

definition kernel_line ::
  "u64 \<Rightarrow> u64 \<Rightarrow> str \<Rightarrow> u64 \<Rightarrow> str \<Rightarrow> u64 \<Rightarrow> nat \<Rightarrow> str list \<Rightarrow> str" where
  "kernel_line start end' perms offset dev inode k path =
     join '' '' [pad 8 (show_radix 16 (unat start)) @ ''-'' @ pad 8 (show_radix 16 (unat end')),
       perms, pad 8 (show_radix 16 (unat offset)), dev, show_nat (unat inode)]
     @ replicate k (CHR '' '') @ join '' '' path"

definition word_ok :: "str \<Rightarrow> bool" where
  "word_ok w \<longleftrightarrow> printing w \<and> w \<noteq> []"

lemma word_ok_hex: "list_all is_hexdigit s \<Longrightarrow> s \<noteq> [] \<Longrightarrow> word_ok s"
  by (simp add: word_ok_def hexdigits_printing)

lemma word_ok_nat: "word_ok (show_nat n)"
proof -
  have "printing (show_nat n)"
    unfolding show_nat_def printing_def using show_radix_digits [of n]
    by (auto simp: list_all_iff is_digit_def)
  then show ?thesis by (simp add: word_ok_def show_nat_def)
qed

lemma word_ok_range: "word_ok (pad 8 (show_radix 16 m) @ ''-'' @ pad 8 (show_radix 16 n))"
proof -
  have "printing (pad 8 (show_radix 16 m))" for m by (intro hexdigits_printing pad_hexdigits)
  moreover have "printing ''-''" by (simp add: byte_def)
  ultimately show ?thesis by (simp only: word_ok_def printing_simps) simp
qed

lemma split_kernel_line:
  assumes "word_ok perms" and "word_ok dev" and "list_all word_ok path" and "path \<noteq> [] \<Longrightarrow> 0 < k"
  shows "split_ws (kernel_line start end' perms offset dev inode k path) =
    [pad 8 (show_radix 16 (unat start)) @ ''-'' @ pad 8 (show_radix 16 (unat end')),
     perms, pad 8 (show_radix 16 (unat offset)), dev, show_nat (unat inode)] @ path"
    (is "_ = ?ws @ path")
proof -
  have ws: "\<forall>w \<in> set ?ws. word_ok w"
    using assms(1,2) word_ok_range word_ok_nat word_ok_hex [OF pad_hexdigits] by simp
  have sp: "replicate k (CHR '' '') @ join '' '' path = [] \<or>
      0 < ws_width (replicate k (CHR '' '') @ join '' '' path)"
    using assms(4) by (cases k; cases path) (auto simp: ws_width_ascii byte_def)
  have "split_ws (join '' '' path) = path"
    using assms(3) by (intro split_ws_join) (simp add: list_all_iff word_ok_def)
  then show ?thesis
    unfolding kernel_line_def
    using split_ws_join_append [of ?ws, OF _ _ sp] ws by (simp add: word_ok_def)
qed

lemma dash_not_hex: "list_all is_hexdigit s \<Longrightarrow> CHR ''-'' \<notin> set s"
  using is_hexdigit_not_sign by (auto simp: list_all_iff)

lemma parse_kernel_line:
  assumes "word_ok perms" and "word_ok dev" and "list_all word_ok path" and "path \<noteq> [] \<Longrightarrow> 0 < k"
  shows "parse_maps_line (kernel_line start end' perms offset dev inode k path) =
    Some \<lparr>pr_start = start, pr_end = end', pr_region =
      \<lparr>mr_start = hex16 start, mr_end = hex16 end', mr_perms = perms, mr_offset = hexn offset,
        mr_dev = dev, mr_inode = inode,
        mr_pathname = (if path = [] then None else Some (join '' '' path))\<rparr>\<rparr>"
  using split_once_append [OF dash_not_hex [OF pad_hexdigits]]
  by (simp add: parse_maps_line_def split_kernel_line [OF assms] split: list.split)

subsection \<open>Regions\<close>

lemma find_split:
  "find P xs = Some x \<longleftrightarrow> (\<exists>as bs. xs = as @ x # bs \<and> P x \<and> (\<forall>a \<in> set as. \<not> P a))"
proof
  assume "find P xs = Some x"
  then obtain i where i: "i < length xs" "P (xs ! i)" "x = xs ! i" "\<forall>j < i. \<not> P (xs ! j)"
    by (auto simp: find_Some_iff)
  then have "xs = take i xs @ x # drop (Suc i) xs" by (simp add: id_take_nth_drop)
  moreover have "\<forall>a \<in> set (take i xs). \<not> P a" using i by (auto simp: in_set_conv_nth)
  ultimately show "\<exists>as bs. xs = as @ x # bs \<and> P x \<and> (\<forall>a \<in> set as. \<not> P a)"
    using i by blast
next
  assume "\<exists>as bs. xs = as @ x # bs \<and> P x \<and> (\<forall>a \<in> set as. \<not> P a)"
  then obtain as bs where "xs = as @ x # bs" "P x" "\<forall>a \<in> set as. \<not> P a" by blast
  then show "find P xs = Some x" by (induction as arbitrary: xs) auto
qed

lemma saturating_sub_exact: "y \<le> x \<Longrightarrow> unat (saturating_sub x y) + unat y = unat x"
  for x y :: "'a::len word"
  by (simp add: saturating_sub_def unat_sub word_le_nat_alt)

lemma resolve_one_None_iff: "resolve_one rs a = None \<longleftrightarrow> (\<forall>r \<in> set rs. \<not> in_region a r)"
  by (auto simp: resolve_one_def find_None_iff)

lemma resolve_one_Some:
  assumes "resolve_one rs a = Some res"
  shows "\<exists>as r bs off. rs = as @ r # bs \<and> in_region a r \<and> (\<forall>q \<in> set as. \<not> in_region a q)
    \<and> ar_region res = pr_region r \<and> ar_offset res = hexn off
    \<and> unat (pr_start r) + unat off = unat a
    \<and> ar_display res = module_label (pr_region r) @ ''+'' @ hexn off"
proof -
  from assms obtain r where r: "find (in_region a) rs = Some r"
    and res: "ar_region res = pr_region r" "ar_offset res = hexn (saturating_sub a (pr_start r))"
      "ar_display res = module_label (pr_region r) @ ''+'' @ hexn (saturating_sub a (pr_start r))"
    by (auto simp: resolve_one_def Let_def)
  from r obtain as bs where "rs = as @ r # bs" "in_region a r" "\<forall>q \<in> set as. \<not> in_region a q"
    by (auto simp: find_split)
  moreover from this have "unat (pr_start r) + unat (saturating_sub a (pr_start r)) = unat a"
    using saturating_sub_exact [of "pr_start r" a] by (simp add: in_region_def add.commute)
  ultimately show ?thesis using res by blast
qed

subsection \<open>Contract of a source of maps\<close>

text \<open>
  What a client of the cache may rely on: if every successful read of a process's maps file
  gives regions with property \<open>P\<close>, then every answer and every cache entry has it.
\<close>

locale maps_source =
  fixes rd :: "'w \<Rightarrow> str \<Rightarrow> (str + str) \<times> 'w"
    and P :: "u32 \<Rightarrow> parsed_region list \<Rightarrow> bool"
  assumes read_ok: "rd w (maps_path pid) = (Inr content, w') \<Longrightarrow> P pid (parse_maps content)"
begin

definition cache_ok :: "maps_cache \<Rightarrow> bool" where
  "cache_ok c \<longleftrightarrow> (\<forall>pid e. mc_entries c pid = Some e \<longrightarrow> P pid (regions e))"

lemma cache_ok_empty: "cache_ok empty_cache"
  by (simp add: cache_ok_def empty_cache_def)

lemma cached_regions_ok: "cache_ok c \<Longrightarrow> mc_entries c pid \<noteq> None \<Longrightarrow> P pid (cached_regions c pid)"
  by (auto simp: cache_ok_def cached_regions_def)

lemma regions_with_ok:
  assumes "cache_ok c" and "regions_with rd now pid force_refresh c w = (r, c', w')"
  shows "cache_ok c' \<and> (\<forall>rs. r = Inr rs \<longrightarrow> P pid rs)"
proof (cases "regions_check c now pid force_refresh")
  case (Inl e)
  with assms show ?thesis by (auto simp: regions_with_def)
next
  case (Inr x)
  show ?thesis
  proof (cases x)
    case (Some rs)
    with Inr have "mc_entries c pid \<noteq> None" and "rs = cached_regions c pid"
      by (auto simp: regions_check_def is_stale_def split: if_splits option.splits)
    with assms Inr Some show ?thesis
      using cached_regions_ok by (auto simp: regions_with_def)
  next
    case None
    show ?thesis
    proof (cases "rd w (maps_path pid)")
      case (Pair f w1)
      show ?thesis
      proof (cases f)
        case (Inl e)
        with assms Inr None Pair show ?thesis by (auto simp: regions_with_def read_maps_def)
      next
        case f: (Inr content)
        then have "P pid (parse_maps content)" using Pair read_ok by blast
        with assms Inr None Pair f show ?thesis
          by (auto simp: regions_with_def read_maps_def regions_store_def Let_def cached_regions_def
              cache_ok_def is_stale_def split: if_splits option.splits)
      qed
    qed
  qed
qed

lemma resolve_cached_ok:
  assumes "cache_ok c" and "resolve_cached rd now pid a force_refresh c w = (m, c', w')"
  shows "cache_ok c' \<and> (\<forall>x. m = Some x \<longrightarrow>
    (\<exists>rs r. P pid rs \<and> r \<in> set rs \<and> in_region a r \<and> x = pr_region r))"
proof -
  obtain r where r: "regions_with rd now pid force_refresh c w = (r, c', w')"
    and m: "m = Option.bind (result_ok r) (\<lambda>rs. map_option pr_region (find (in_region a) rs))"
    using assms(2) by (auto simp: resolve_cached_def split: prod.splits)
  note ok = regions_with_ok [OF assms(1) r]
  have "\<exists>rs q. P pid rs \<and> q \<in> set rs \<and> in_region a q \<and> x = pr_region q" if "m = Some x" for x
  proof -
    from that m obtain rs q where "r = Inr rs" "find (in_region a) rs = Some q" "x = pr_region q"
      by (auto simp: bind_eq_Some_conv res_simps)
    moreover from this have "q \<in> set rs" and "in_region a q" by (auto simp: find_split)
    ultimately show ?thesis using ok by blast
  qed
  with ok show ?thesis by blast
qed

lemma resolve_ok:
  assumes "cache_ok c" and "resolve rd now pid a c w = (m, c', w')"
  shows "cache_ok c' \<and> (\<forall>x. m = Some x \<longrightarrow>
    (\<exists>rs r. P pid rs \<and> r \<in> set rs \<and> in_region a r \<and> x = pr_region r))"
proof -
  obtain m1 c1 w1 where 1: "resolve_cached rd now pid a False c w = (m1, c1, w1)"
    by (metis prod_cases3)
  note ok1 = resolve_cached_ok [OF assms(1) 1]
  show ?thesis
  proof (cases m1)
    case None
    then have "resolve_cached rd now pid a True c1 w1 = (m, c', w')"
      using assms(2) 1 by (simp add: resolve_def)
    with ok1 resolve_cached_ok show ?thesis by blast
  qed (use ok1 1 assms(2) in \<open>auto simp: resolve_def\<close>)
qed

lemma resolve_module_offset_ok:
  assumes "cache_ok c" and "resolve_module_offset rd now pid e c w = (r, c', w')"
  shows "cache_ok c' \<and> (\<forall>a. r = Inr a \<longrightarrow>
    (\<exists>m n rs q. parse_module_offset e = Inr (m, n) \<and> P pid rs \<and> q \<in> set rs \<and>
       mr_pathname (pr_region q) \<noteq> None \<and> module_matches m q \<and>
       unat a = unat (pr_start q) + unat n))"
proof (cases "parse_module_offset e")
  case (Inl err)
  with assms show ?thesis by (auto simp: resolve_module_offset_def)
next
  case (Inr mn)
  obtain m n where mn: "mn = (m, n)" by (cases mn)
  obtain s where s: "regions_with rd now pid True c w = (s, c', w')"
    and r: "r = and_then s (\<lambda>rs. and_then (ok_or (ModuleNotFound pid m)
      (find (module_matches m) (filter (\<lambda>r. mr_pathname (pr_region r) \<noteq> None) rs)))
      (\<lambda>r. ok_or (AddressOverflow e) (checked_add (pr_start r) n)))"
    using assms(2) Inr mn by (auto simp: resolve_module_offset_def split: prod.splits)
  note ok = regions_with_ok [OF assms(1) s]
  have "\<exists>rs q. P pid rs \<and> q \<in> set rs \<and> mr_pathname (pr_region q) \<noteq> None \<and> module_matches m q \<and>
      unat a = unat (pr_start q) + unat n" if "r = Inr a" for a
  proof -
    from that r obtain rs q where "s = Inr rs"
      and q: "find (module_matches m) (filter (\<lambda>r. mr_pathname (pr_region r) \<noteq> None) rs) = Some q"
      and "checked_add (pr_start q) n = Some a"
      by (auto simp: and_then_Inr_iff ok_or_Inr_iff)
    moreover have "q \<in> set (filter (\<lambda>r. mr_pathname (pr_region r) \<noteq> None) rs)" and "module_matches m q"
      using q unfolding find_split by (metis in_set_conv_decomp)+
    ultimately show ?thesis using ok by (auto simp: checked_add_Some_iff)
  qed
  with ok Inr mn show ?thesis by blast
qed

end

text \<open>The regions the files of a process can have held.\<close>

definition served :: "('w \<Rightarrow> str \<Rightarrow> (str + str) \<times> 'w) \<Rightarrow> u32 \<Rightarrow> parsed_region list \<Rightarrow> bool" where
  "served rd pid rs \<longleftrightarrow> (\<exists>w content w'. rd w (maps_path pid) = (Inr content, w') \<and> rs = parse_maps content)"

interpretation src: maps_source rd "served rd"
  for rd :: "'w \<Rightarrow> str \<Rightarrow> (str + str) \<times> 'w"
  by unfold_locales (auto simp: served_def)

subsection \<open>Freshness\<close>

lemma regions_with_fresh:
  assumes "\<not> mc_poisoned c" and "mc_entries c pid = Some e" and "now - loaded_at e < 1000000000"
  shows "regions_with rd now pid False c w = (Inr (regions e), c, w)"
  using assms by (simp add: regions_with_def regions_check_def is_stale_def cached_regions_def)

lemma regions_with_read:
  assumes "\<not> mc_poisoned c" and "force_refresh \<or> is_stale now (mc_entries c pid)"
    and "rd w (maps_path pid) = (Inr content, w')"
  shows "regions_with rd now pid force_refresh c w =
    (Inr (parse_maps content),
     c\<lparr>mc_entries := (mc_entries c)(pid \<mapsto> \<lparr>loaded_at = now, regions = parse_maps content\<rparr>)\<rparr>, w')"
  using assms
  by (auto simp: regions_with_def regions_check_def read_maps_def regions_store_def cached_regions_def Let_def)

lemma regions_with_failed:
  assumes "\<not> mc_poisoned c" and "force_refresh \<or> is_stale now (mc_entries c pid)"
    and "rd w (maps_path pid) = (Inl e, w')"
  shows "regions_with rd now pid force_refresh c w = (Inl (ReadFailed e), c, w')"
  using assms by (auto simp: regions_with_def regions_check_def read_maps_def)

lemma regions_with_frame:
  "regions_with rd now pid force_refresh c w = (r, c', w') \<Longrightarrow>
     mc_poisoned c' = mc_poisoned c \<and> (\<forall>q. q \<noteq> pid \<longrightarrow> mc_entries c' q = mc_entries c q)"
  by (auto simp: regions_with_def regions_store_def Let_def split: sum.splits option.splits prod.splits if_splits)

text \<open>A second thread's read that arrives after a fresh entry was stored is dropped.\<close>

lemma regions_store_late:
  assumes "\<not> mc_poisoned c" and "\<not> is_stale now (mc_entries c pid)"
  shows "regions_store c now pid False rs = (Inr (cached_regions c pid), c)"
  using assms by (simp add: regions_store_def)

subsection \<open>Many addresses\<close>

lemma map_enumerate: "map (\<lambda>(i, v). f i v) (enumerate k xs) = map (\<lambda>i. f (k + i) (xs ! i)) [0..<length xs]"
  by (rule nth_equalityI) (simp_all add: nth_enumerate_eq)

lemma resolve_many_fill:
  assumes "addrs \<noteq> []"
    and "regions_with rd now pid False c w = (Inr rs, c1, w1)"
    and "regions_with rd now pid True c1 w1 = (Inr rs', c2, w2)"
  shows "fst (resolve_many_addresses rd now pid addrs c w) =
    map (\<lambda>a. case resolve_one rs a of Some x \<Rightarrow> Some x | None \<Rightarrow> resolve_one rs' a) addrs"
proof (cases "list_ex (\<lambda>x. x = None) (resolve_against_regions rs addrs)")
  case True
  have "fst (resolve_many_addresses rd now pid addrs c w) =
      map (\<lambda>(i, v). if v = None then resolve_one rs' (addrs ! i) else v)
        (enumerate 0 (resolve_against_regions rs addrs))"
    using assms True by (simp add: resolve_many_addresses_def)
  also have "\<dots> = map (\<lambda>a. case resolve_one rs a of Some x \<Rightarrow> Some x | None \<Rightarrow> resolve_one rs' a) addrs"
    by (rule nth_equalityI)
       (auto simp: resolve_against_regions_def nth_enumerate_eq split: option.splits)
  finally show ?thesis .
next
  case False
  then have "resolve_one rs a \<noteq> None" if "a \<in> set addrs" for a
    using that unfolding resolve_against_regions_def list_ex_iff by (metis image_eqI list.set_map)
  then have "resolve_against_regions rs addrs =
      map (\<lambda>a. case resolve_one rs a of Some x \<Rightarrow> Some x | None \<Rightarrow> resolve_one rs' a) addrs"
    unfolding resolve_against_regions_def by (intro map_cong refl) (force split: option.splits)
  with False assms show ?thesis by (simp add: resolve_many_addresses_def)
qed

lemma length_resolve_many: "length (fst (resolve_many_addresses rd now pid addrs c w)) = length addrs"
  by (auto simp: resolve_many_addresses_def resolve_against_regions_def Let_def
      split: prod.splits sum.splits)

subsection \<open>Address expressions\<close>

lemma resolve_expression_hex:
  "resolve_expression rd now1 now2 pid (hex16 a) c w =
     (case resolve rd now2 pid a c w of
        (m, c', w') \<Rightarrow>
          (Inr \<lparr>ra_expression = hex16 a, ra_address = hex16 a, ra_value = a, ra_map = m\<rparr>, c', w'))"
  by (simp add: resolve_expression_def)

lemma parse_module_offset_printed:
  assumes "CHR ''+'' \<notin> set m" and "trim m = m" and "m \<noteq> []"
  shows "parse_module_offset (m @ ''+'' @ hexn n) = Inr (m, n)"
  using assms split_once_append [of "CHR ''+''" m "hexn n"]
  by (simp add: parse_module_offset_def)

text \<open>The split is at the first plus sign: no expression names a module with one in its name.\<close>

lemma parse_module_offset_no_plus: "parse_module_offset e = Inr (m, n) \<Longrightarrow> CHR ''+'' \<notin> set m"
  using set_trim
  by (fastforce simp: parse_module_offset_def Let_def and_then_Inr_iff ok_or_Inr_iff split_once_Some_iff
      split: if_splits)

lemma resolve_many_nth:
  assumes "regions_with rd now pid False c w = (r, c1, w1)" and "i < length addrs"
  shows "fst (resolve_many_addresses rd now pid addrs c w) ! i =
    (case resolve_one (case r of Inl _ \<Rightarrow> [] | Inr rs \<Rightarrow> rs) (addrs ! i) of
       Some x \<Rightarrow> Some x
     | None \<Rightarrow> (case fst (regions_with rd now pid True c1 w1) of
          Inl _ \<Rightarrow> None | Inr rs' \<Rightarrow> resolve_one rs' (addrs ! i)))"
proof -
  let ?rs = "case r of Inl _ \<Rightarrow> [] | Inr rs \<Rightarrow> rs"
  let ?res = "resolve_against_regions ?rs addrs"
  have nth: "?res ! i = resolve_one ?rs (addrs ! i)" using assms(2) by (simp add: resolve_against_regions_def)
  have ne: "addrs \<noteq> []" using assms(2) by auto
  obtain r2 c2 w2 where r2: "regions_with rd now pid True c1 w1 = (r2, c2, w2)" by (metis prod_cases3)
  show ?thesis
  proof (cases "list_ex (\<lambda>x. x = None) ?res")
    case False
    then have "?res ! i \<noteq> None" using assms(2) by (simp add: list_ex_length resolve_against_regions_def)
    with False ne assms nth show ?thesis by (auto simp: resolve_many_addresses_def Let_def)
  next
    case True
    show ?thesis
    proof (cases r2)
      case (Inl e)
      with True ne assms nth r2 show ?thesis
        by (auto simp: resolve_many_addresses_def Let_def split: option.split)
    next
      case (Inr rs')
      have "fst (resolve_many_addresses rd now pid addrs c w) =
          map (\<lambda>i. if ?res ! i = None then resolve_one rs' (addrs ! i) else ?res ! i) [0..<length addrs]"
        using True ne assms(1) r2 Inr
        by (simp add: resolve_many_addresses_def Let_def map_enumerate) (simp add: resolve_against_regions_def)
      then show ?thesis using assms(2) nth r2 Inr by (auto split: option.split)
    qed
  qed
qed

subsection \<open>A process with one region\<close>

definition demo_line :: str where
  "demo_line = kernel_line 16 48 ''r-xp'' 0 ''08:01'' 7 1 [''/lib/libc.so'']"

lemma demo_line_text: "demo_line = ''00000010-00000030 r-xp 00000000 08:01 7 /lib/libc.so''"
proof -
  have "show_radix 16 16 = ''10''" "show_radix 16 48 = ''30''" "show_radix 16 0 = ''0''" "show_radix 10 7 = ''7''"
    by code_simp+
  moreover have "pad 8 ''10'' = ''00000010''" "pad 8 ''30'' = ''00000030''" "pad 8 ''0'' = ''00000000''"
    by (simp_all add: pad_def numeral_eq_Suc)
  ultimately show ?thesis by (simp add: demo_line_def kernel_line_def show_nat_def)
qed

lemma demo_region: "parse_maps_line demo_line = Some \<lparr>pr_start = 16, pr_end = 48, pr_region =
      \<lparr>mr_start = hex16 16, mr_end = hex16 48, mr_perms = ''r-xp'', mr_offset = hexn 0,
        mr_dev = ''08:01'', mr_inode = 7, mr_pathname = Some ''/lib/libc.so''\<rparr>\<rparr>"
  unfolding demo_line_def by (subst parse_kernel_line) (simp_all add: word_ok_def printing_def byte_def)

lemma demo_maps: "parse_maps demo_line = [the (parse_maps_line demo_line)]"
proof -
  have "char_of (10::nat) \<notin> set ''00000010-00000030 r-xp 00000000 08:01 7 /lib/libc.so''" by code_simp
  from split_on_single [OF this] have "lines demo_line = [demo_line]"
    unfolding lines_def demo_line_text by (simp only: lines_of.simps) simp
  then show ?thesis using demo_region by (simp add: parse_maps_def List.map_filter_def)
qed

lemma demo_matches: "module_matches ''libc.so'' (the (parse_maps_line demo_line))"
proof -
  have "to_ascii_lowercase ''/lib/libc.so'' = ''/lib/libc.so''" "to_ascii_lowercase ''libc.so'' = ''libc.so''"
    "ends_with ''/lib/libc.so'' ''/libc.so''" by code_simp+
  then show ?thesis by (simp add: demo_region module_matches_def Let_def)
qed

subsection \<open>Properties\<close>

text \<open>
  C31: a line of \<open>/proc/pid/maps\<close> in the kernel's format is read back field by field: the three numbers
  and the inode exactly, the permissions and the device verbatim, and the path with its inner blanks
  as single spaces, or none if the mapping is anonymous.
\<close>

theorem maps_line_roundtrip:
  assumes "list_all (\<lambda>x. printing x \<and> x \<noteq> []) (perms # dev # path)" and "path = [] \<or> 0 < k"
  shows "parse_maps_line (kernel_line start end' perms offset dev inode k path) =
    Some \<lparr>pr_start = start, pr_end = end', pr_region =
      \<lparr>mr_start = hex16 start, mr_end = hex16 end', mr_perms = perms, mr_offset = hexn offset,
        mr_dev = dev, mr_inode = inode,
        mr_pathname = (if path = [] then None else Some (join '' '' path))\<rparr>\<rparr>"
proof (rule parse_kernel_line)
  have "word_ok = (\<lambda>x. printing x \<and> x \<noteq> [])" by (rule ext) (simp add: word_ok_def)
  with assms(1) show "word_ok perms" "word_ok dev" "list_all word_ok path" by simp_all
  show "0 < k" if "path \<noteq> []" using assms(2) that by simp
qed

theorem maps_line_roundtrip_witness:
  "map_option pr_start (parse_maps_line (kernel_line 4096 8192 ''r-xp'' 0 ''08:01'' 7 30 [''/a'', ''b''])) = Some 4096"
  by (subst maps_line_roundtrip) (simp_all add: printing_def byte_def)

text \<open>
  C27: whatever the cache holds and whenever the file changes, a resolved address of a hit lies in a
  region that the file system served for the process, and module plus offset name exactly that
  address; there is one answer per address, and the cache holds only what was served.
\<close>

theorem resolutions_sound:
  assumes "\<forall>p e. mc_entries c p = Some e \<longrightarrow> served rd p (regions e)"
    and "resolve_many_addresses rd now pid addrs c w = (res, c', w')"
  shows "length res = length addrs
    \<and> (\<forall>i < length addrs. case res ! i of None \<Rightarrow> True | Some x \<Rightarrow> \<exists>rs r off. served rd pid rs \<and> r \<in> set rs
         \<and> in_region (addrs ! i) r \<and> ar_region x = pr_region r
         \<and> ar_display x = module_label (pr_region r) @ ''+'' @ hexn off
         \<and> unat (pr_start r) + unat off = unat (addrs ! i))
    \<and> (\<forall>p e. mc_entries c' p = Some e \<longrightarrow> served rd p (regions e))"
proof -
  note ok = src.cache_ok_def [THEN iffD2, OF assms(1)]
  obtain r c1 w1 where r: "regions_with rd now pid False c w = (r, c1, w1)" by (metis prod_cases3)
  obtain r2 c2 w2 where r2: "regions_with rd now pid True c1 w1 = (r2, c2, w2)" by (metis prod_cases3)
  note ok1 = src.regions_with_ok [OF ok r] and ok2 = src.regions_with_ok [OF conjunct1 [OF src.regions_with_ok [OF ok r]] r2]
  have one: "\<exists>rs q off. served rd pid rs \<and> q \<in> set rs \<and> in_region a q \<and> ar_region x = pr_region q
      \<and> ar_display x = module_label (pr_region q) @ ''+'' @ hexn off \<and> unat (pr_start q) + unat off = unat a"
    if "resolve_one rs a = Some x" "rs = [] \<or> served rd pid rs" for rs a x
  proof -
    from resolve_one_Some [OF that(1)] obtain as q bs off where "rs = as @ q # bs" "in_region a q"
      "ar_region x = pr_region q" "unat (pr_start q) + unat off = unat a"
      "ar_display x = module_label (pr_region q) @ ''+'' @ hexn off" by blast
    with that(2) show ?thesis by (intro exI [of _ rs] exI [of _ q] exI [of _ off]) auto
  qed
  have "case res ! i of None \<Rightarrow> True | Some x \<Rightarrow> \<exists>rs q off. served rd pid rs \<and> q \<in> set rs
         \<and> in_region (addrs ! i) q \<and> ar_region x = pr_region q
         \<and> ar_display x = module_label (pr_region q) @ ''+'' @ hexn off
         \<and> unat (pr_start q) + unat off = unat (addrs ! i)" if i: "i < length addrs" for i
  proof (cases "res ! i")
    case (Some x)
    have n: "res ! i = (case resolve_one (case r of Inl _ \<Rightarrow> [] | Inr rs \<Rightarrow> rs) (addrs ! i) of
       Some x \<Rightarrow> Some x
     | None \<Rightarrow> (case fst (regions_with rd now pid True c1 w1) of Inl _ \<Rightarrow> None | Inr rs' \<Rightarrow> resolve_one rs' (addrs ! i)))"
      using resolve_many_nth [OF r i] assms(2) by simp
    have "\<exists>rs. resolve_one rs (addrs ! i) = Some x \<and> (rs = [] \<or> served rd pid rs)"
      using n Some ok1 ok2 r2 by (auto split: option.splits sum.splits)
    then show ?thesis using one Some by auto
  qed simp
  moreover have "length res = length addrs"
    using length_resolve_many [of rd now pid addrs c w] assms(2) by simp
  moreover have "c' = c \<or> c' = c1 \<or> c' = c2"
    using assms(2) r r2 by (auto simp: resolve_many_addresses_def Let_def split: if_splits sum.splits)
  then have "\<forall>p e. mc_entries c' p = Some e \<longrightarrow> served rd p (regions e)"
    using assms(1) ok1 ok2 by (auto simp: src.cache_ok_def)
  ultimately show ?thesis by blast
qed

definition demo_read :: "unit \<Rightarrow> str \<Rightarrow> (str + str) \<times> unit" where
  "demo_read w path = (Inr demo_line, w)"

theorem resolutions_sound_witness:
  "length (fst (resolve_many_addresses demo_read 0 7 [20, 100] empty_cache ())) = 2"
proof -
  obtain res c' w' where r: "resolve_many_addresses demo_read 0 7 [20, 100] empty_cache () = (res, c', w')"
    by (metis prod_cases3)
  have "\<forall>p e. mc_entries empty_cache p = Some e \<longrightarrow> served demo_read p (regions e)" by (simp add: empty_cache_def)
  from resolutions_sound [OF this r] r show ?thesis by simp
qed

text \<open>
  C28: an address that stays unresolved is not mapped: before an address is given up, the file is read
  anew, and no region of that file contains the address, nor does any of the regions used first.
\<close>

theorem unresolved_is_unmapped:
  assumes "\<not> mc_poisoned c" and "regions_with rd now pid False c w = (r, c1, w1)"
    and "rd w1 (maps_path pid) = (Inr content, w2)" and "i < length addrs"
    and "fst (resolve_many_addresses rd now pid addrs c w) ! i = None"
  shows "list_all (\<lambda>q. \<not> in_region (addrs ! i) q) (parse_maps content)
    \<and> list_all (\<lambda>q. \<not> in_region (addrs ! i) q) (case r of Inl _ \<Rightarrow> [] | Inr rs \<Rightarrow> rs)"
proof -
  have "\<not> mc_poisoned c1" using regions_with_frame [OF assms(2)] assms(1) by simp
  then have "fst (regions_with rd now pid True c1 w1) = Inr (parse_maps content)"
    using regions_with_read [where rd = rd and w = w1 and pid = pid and force_refresh = True] assms(3) by simp
  then have "resolve_one (parse_maps content) (addrs ! i) = None"
    "resolve_one (case r of Inl _ \<Rightarrow> [] | Inr rs \<Rightarrow> rs) (addrs ! i) = None"
    using resolve_many_nth [OF assms(2,4)] assms(5) by (auto split: option.splits)
  then show ?thesis by (simp add: resolve_one_None_iff list_all_iff)
qed

theorem unresolved_is_unmapped_witness:
  "\<not> in_region 100 (the (parse_maps_line demo_line))"
proof -
  have r: "regions_with demo_read 0 7 False empty_cache () = (Inr (parse_maps demo_line),
      empty_cache\<lparr>mc_entries := [7 \<mapsto> \<lparr>loaded_at = 0, regions = parse_maps demo_line\<rparr>]\<rparr>, ())"
    using regions_with_read [of empty_cache False 0 7 demo_read "()" demo_line "()"]
    by (simp add: empty_cache_def is_stale_def demo_read_def)
  have "resolve_one (parse_maps demo_line) 100 = None"
    by (simp add: demo_maps demo_region resolve_one_None_iff in_region_def)
  then have n: "fst (resolve_many_addresses demo_read 0 7 [100] empty_cache ()) ! 0 = None"
    using resolve_many_nth [OF r, of 0 "[100]"] regions_with_read [of "empty_cache\<lparr>mc_entries := [7 \<mapsto> \<lparr>loaded_at = 0,
      regions = parse_maps demo_line\<rparr>]\<rparr>" True 0 7 demo_read "()" demo_line "()"]
    by (simp add: empty_cache_def demo_read_def)
  from unresolved_is_unmapped [OF _ r _ _ n, of demo_line "()"] show ?thesis
    by (simp add: demo_maps empty_cache_def demo_read_def)
qed

text \<open>
  C29: an expression \<open>module+offset\<close> that resolves names a served region of the process whose path or
  file name is the module, ignoring case, and the address is the region's start plus the offset,
  without wrapping around.
\<close>

theorem module_offset_sound:
  assumes "\<forall>p e. mc_entries c p = Some e \<longrightarrow> served rd p (regions e)"
    and "resolve_module_offset rd now pid e c w = (Inr a, c', w')"
  shows "\<exists>m n rs q. parse_module_offset e = Inr (m, n) \<and> served rd pid rs \<and> q \<in> set rs
    \<and> mr_pathname (pr_region q) \<noteq> None \<and> module_matches m q
    \<and> unat a = unat (pr_start q) + unat n"
  using src.resolve_module_offset_ok [OF _ assms(2)] assms(1) by (auto simp: src.cache_ok_def)

theorem module_offset_sound_witness:
  "unat (32 :: u64) = unat (pr_start (the (parse_maps_line demo_line))) + 16"
proof -
  have e: "parse_module_offset (''libc.so'' @ ''+'' @ hexn 16) = Inr (''libc.so'', 16)"
    by (rule parse_module_offset_printed) (simp_all add: trim_printing printing_def byte_def)
  have "regions_with demo_read 0 7 True empty_cache () = (Inr (parse_maps demo_line),
      empty_cache\<lparr>mc_entries := [7 \<mapsto> \<lparr>loaded_at = 0, regions = parse_maps demo_line\<rparr>]\<rparr>, ())"
    using regions_with_read [of empty_cache True 0 7 demo_read "()" demo_line "()"]
    by (simp add: empty_cache_def demo_read_def)
  then have "resolve_module_offset demo_read 0 7 (''libc.so'' @ ''+'' @ hexn 16) empty_cache () = (Inr 32,
      empty_cache\<lparr>mc_entries := [7 \<mapsto> \<lparr>loaded_at = 0, regions = parse_maps demo_line\<rparr>]\<rparr>, ())"
    using e demo_matches demo_region demo_maps unfolding resolve_module_offset_def
    by (simp add: checked_add_def)
  from module_offset_sound [OF _ this] e obtain rs q where "served demo_read 7 rs" "q \<in> set rs"
    "unat (32 :: u64) = unat (pr_start q) + 16" by (auto simp: empty_cache_def)
  moreover have "rs = parse_maps demo_line" using calculation(1) by (auto simp: served_def demo_read_def)
  ultimately show ?thesis using demo_maps by simp
qed

text \<open>
  The cache answers for one second: within it an unforced lookup returns the stored regions and
  reads nothing; from then on, or if forced, or for an unknown process, the file is read, and its
  regions are returned and stored with the time of the lookup; a failed read stores nothing.
\<close>

lemma cache_lives_a_second:
  assumes "\<not> mc_poisoned c"
  shows "regions_with rd now pid force_refresh c w =
    (case mc_entries c pid of
       Some e \<Rightarrow>
         if \<not> force_refresh \<and> now < loaded_at e + 1000000000 then (Inr (regions e), c, w)
         else (case rd w (maps_path pid) of
             (Inl x, w') \<Rightarrow> (Inl (ReadFailed x), c, w')
           | (Inr content, w') \<Rightarrow> (Inr (parse_maps content),
               c\<lparr>mc_entries := (mc_entries c)(pid \<mapsto> \<lparr>loaded_at = now, regions = parse_maps content\<rparr>)\<rparr>, w'))
     | None \<Rightarrow>
         (case rd w (maps_path pid) of
             (Inl x, w') \<Rightarrow> (Inl (ReadFailed x), c, w')
           | (Inr content, w') \<Rightarrow> (Inr (parse_maps content),
               c\<lparr>mc_entries := (mc_entries c)(pid \<mapsto> \<lparr>loaded_at = now, regions = parse_maps content\<rparr>)\<rparr>, w')))"
proof -
  obtain f w' where f: "rd w (maps_path pid) = (f, w')" by fastforce
  show ?thesis
    using regions_with_fresh [OF assms, of pid _ now rd w] regions_with_read [OF assms, of force_refresh now pid rd w]
      regions_with_failed [OF assms, of force_refresh now pid rd w] f
    by (cases f; cases "mc_entries c pid"; cases force_refresh) (auto simp: is_stale_def not_less)
qed

end
