(* ===== verification/Hit_Factory.thy ===== *)
theory Hit_Factory
  imports Perf_Ring Proc_Maps
begin

section \<open>Hits (src/hit.rs)\<close>

text \<open>
  The record that the server stores and serves for one sample, and the factory that numbers
  hits and renders a sample's registers, vector registers and backtrace. The wall clock is an
  argument: the milliseconds since the epoch, or \<open>None\<close> for a clock set before it.
\<close>

subsection \<open>Data\<close>

record register_value =
  rv_name :: str
  rv_value :: str
  rv_map :: "map_region option"
  rv_resolved :: "address_resolution option"
  rv_display :: str

record address_value =
  av_value :: str
  av_resolved :: "address_resolution option"
  av_display :: str

record hit =
  ht_seq :: u64
  ht_breakpoint_id :: u64
  ht_pid :: u32
  ht_tid :: u32
  ht_timestamp_ms :: nat
  ht_regs :: "register_value list"
  ht_simd :: "register_value list"
  ht_backtrace :: "str list option"
  ht_backtrace_frames :: "address_value list option"

record hit_factory =
  hf_next_seq :: u64

subsection \<open>Rendering\<close>

definition make_simd_register :: "nat \<Rightarrow> str \<Rightarrow> u64 \<Rightarrow> register_value" where
  "make_simd_register i part v =
     \<lparr>rv_name = ''v'' @ show_nat i @ ''.'' @ part, rv_value = hex16 v, rv_map = None,
      rv_resolved = None, rv_display = hex16 v\<rparr>"

definition display_address :: "u64 \<Rightarrow> address_resolution option \<Rightarrow> str" where
  "display_address addr resolved =
     (case resolved of
        Some r \<Rightarrow> hex16 addr @ '' ('' @ ar_display r @ '')''
      | None \<Rightarrow> hex16 addr)"

text \<open>\<open>get(idx).cloned().flatten()\<close>.\<close>

definition resolution_at :: "address_resolution option list \<Rightarrow> nat \<Rightarrow> address_resolution option" where
  "resolution_at rs i = (if i < length rs then rs ! i else None)"

definition make_register ::
  "arch \<Rightarrow> address_resolution option list \<Rightarrow> nat \<Rightarrow> u64 \<Rightarrow> register_value" where
  "make_register a rs i v =
     \<lparr>rv_name = id_to_str a i, rv_value = hex16 v,
      rv_map = map_option ar_region (resolution_at rs i),
      rv_resolved = resolution_at rs i,
      rv_display = display_address v (resolution_at rs i)\<rparr>"

definition make_frame :: "address_resolution option list option \<Rightarrow> nat \<Rightarrow> u64 \<Rightarrow> address_value" where
  "make_frame brs i addr =
     (let resolved = Option.bind brs (\<lambda>rs. resolution_at rs i)
      in \<lparr>av_value = hex16 addr, av_resolved = resolved, av_display = display_address addr resolved\<rparr>)"

definition make_hit_with_maps ::
  "arch \<Rightarrow> nat option \<Rightarrow> u64 \<Rightarrow> sample_data \<Rightarrow> address_resolution option list
    \<Rightarrow> address_resolution option list option \<Rightarrow> hit_factory \<Rightarrow> hit \<times> hit_factory" where
  "make_hit_with_maps a clock bp data reg_res bt_res f =
     (\<lparr>ht_seq = hf_next_seq f + 1, ht_breakpoint_id = bp, ht_pid = sd_pid data, ht_tid = sd_tid data,
       ht_timestamp_ms = (case clock of Some t \<Rightarrow> t | None \<Rightarrow> 0),
       ht_regs = map (\<lambda>(i, v). make_register a reg_res i v) (enumerate 0 (sd_regs data)),
       ht_simd = concat (map (\<lambda>(i, v). [make_simd_register i ''lo'' (fst v), make_simd_register i ''hi'' (snd v)])
                   (enumerate 0 (sd_simd data))),
       ht_backtrace = map_option (map hex16) (sd_backtrace data),
       ht_backtrace_frames =
         map_option (\<lambda>fs. map (\<lambda>(i, addr). make_frame bt_res i addr) (enumerate 0 fs)) (sd_backtrace data)\<rparr>,
      f\<lparr>hf_next_seq := hf_next_seq f + 1\<rparr>)"

subsection \<open>Lemmas\<close>

lemma map_enumerate_snd: "map (\<lambda>(i, v). g v) (enumerate n xs) = map g xs"
  by (rule nth_equalityI) (simp_all add: nth_enumerate_eq)

lemma make_hit_simps [simp]:
  "ht_seq (fst (make_hit_with_maps a clock bp data rr br f)) = hf_next_seq f + 1"
  "ht_breakpoint_id (fst (make_hit_with_maps a clock bp data rr br f)) = bp"
  "ht_pid (fst (make_hit_with_maps a clock bp data rr br f)) = sd_pid data"
  "ht_tid (fst (make_hit_with_maps a clock bp data rr br f)) = sd_tid data"
  "hf_next_seq (snd (make_hit_with_maps a clock bp data rr br f)) = hf_next_seq f + 1"
  by (simp_all add: make_hit_with_maps_def)

lemma hit_regs: "ht_regs (fst (make_hit_with_maps a clock bp data rr br f)) =
    map (\<lambda>i. make_register a rr i (sd_regs data ! i)) [0..<length (sd_regs data)]"
  by (rule nth_equalityI) (simp_all add: make_hit_with_maps_def nth_enumerate_eq)

lemma hit_frames: "ht_backtrace_frames (fst (make_hit_with_maps a clock bp data rr br f)) =
    map_option (\<lambda>fs. map (\<lambda>i. make_frame br i (fs ! i)) [0..<length fs]) (sd_backtrace data)"
  by (cases "sd_backtrace data")
    (auto simp: make_hit_with_maps_def nth_enumerate_eq intro!: nth_equalityI)

text \<open>Reading the words back: registers, the two halves of each vector register, frames.\<close>

definition words_back :: "str list \<Rightarrow> u64 list" where
  "words_back xs = map (the \<circ> parse_hex16) xs"

lemma words_back_hex16 [simp]: "words_back (map hex16 xs) = xs"
  by (simp add: words_back_def comp_def hex16.dec_enc)

lemma hit_values:
  "map rv_value (ht_regs (fst (make_hit_with_maps a clock bp data rr br f))) = map hex16 (sd_regs data)"
  "map rv_value (ht_simd (fst (make_hit_with_maps a clock bp data rr br f)))
     = map hex16 (concat (map (\<lambda>(lo, hi). [lo, hi]) (sd_simd data)))"
  "map_option (map av_value) (ht_backtrace_frames (fst (make_hit_with_maps a clock bp data rr br f)))
     = ht_backtrace (fst (make_hit_with_maps a clock bp data rr br f))"
proof -
  show "map rv_value (ht_regs (fst (make_hit_with_maps a clock bp data rr br f))) = map hex16 (sd_regs data)"
    by (rule nth_equalityI) (simp_all add: hit_regs make_register_def)
  have "map rv_value (concat (map (\<lambda>(i, v). [make_simd_register i ''lo'' (fst v), make_simd_register i ''hi'' (snd v)])
      (enumerate n xs))) = map hex16 (concat (map (\<lambda>(lo, hi). [lo, hi]) xs))" for n xs
    by (induction xs arbitrary: n) (simp_all add: make_simd_register_def split: prod.split)
  then show "map rv_value (ht_simd (fst (make_hit_with_maps a clock bp data rr br f)))
     = map hex16 (concat (map (\<lambda>(lo, hi). [lo, hi]) (sd_simd data)))"
    by (simp add: make_hit_with_maps_def)
  show "map_option (map av_value) (ht_backtrace_frames (fst (make_hit_with_maps a clock bp data rr br f)))
     = ht_backtrace (fst (make_hit_with_maps a clock bp data rr br f))"
    by (cases "sd_backtrace data")
      (auto simp: make_hit_with_maps_def make_frame_def Let_def nth_enumerate_eq intro!: nth_equalityI)
qed

lemma strip_display: "take 18 (display_address v res) = hex16 v"
  by (auto simp: display_address_def split: option.splits)

subsection \<open>Properties\<close>

text \<open>
  A hit keeps the whole sample: its register values, its vector halves (low before high) and
  its backtrace, read back from hexadecimal, are the words of the sample, in order and number.
\<close>

lemma hit_keeps_sample:
  "let h = fst (make_hit_with_maps a clock bp data reg_res bt_res f) in
     words_back (map rv_value (ht_regs h)) = sd_regs data
     \<and> words_back (map rv_value (ht_simd h)) = concat (map (\<lambda>(lo, hi). [lo, hi]) (sd_simd data))
     \<and> map_option words_back (ht_backtrace h) = sd_backtrace data
     \<and> map_option (map av_value) (ht_backtrace_frames h) = ht_backtrace h
     \<and> ht_pid h = sd_pid data \<and> ht_tid h = sd_tid data \<and> ht_breakpoint_id h = bp"
proof -
  have "map_option words_back (ht_backtrace (fst (make_hit_with_maps a clock bp data reg_res bt_res f)))
      = sd_backtrace data"
    by (cases "sd_backtrace data") (simp_all add: make_hit_with_maps_def)
  then show ?thesis by (simp add: hit_values)
qed

text \<open>
  Every register of a hit carries the resolution at its own index, if there is one: the name,
  the region and the displayed text all speak of the same register and the same resolution, and
  a missing or short resolution list leaves the bare address.
\<close>

lemma hit_register_resolution:
  "\<forall>i \<in> {0..<length (sd_regs data)}.
     let r = ht_regs (fst (make_hit_with_maps a clock bp data reg_res bt_res f)) ! i;
         res = (if i < length reg_res then reg_res ! i else None)
     in rv_name r = id_to_str a i \<and> rv_resolved r = res \<and> rv_map r = map_option ar_region res
        \<and> rv_display r = hex16 (sd_regs data ! i)
             @ (case res of None \<Rightarrow> [] | Some x \<Rightarrow> '' ('' @ ar_display x @ '')'')"
  by (auto simp: hit_regs make_register_def resolution_at_def display_address_def Let_def
      split: option.splits)

end
