(* ===== verification/Lk_Driver.thy ===== *)
theory Lk_Driver
  imports Bytes Sys_Bindings
begin

section \<open>The LK1337 driver interface (src/lk1337.rs)\<close>

text \<open>
  The driver is a kernel module: what its system calls answer is a parameter, a record of
  functions over an abstract kernel state \<open>'k\<close>. The theory models the requests the program
  builds for it, how it reads the replies, and the life of its file descriptors. A raw pointer
  in a request is a 64-bit value \<open>ptr\<close> chosen by the allocator; the memory it points to travels
  beside the request as a \<open>buffer\<close>.
\<close>

subsection \<open>Constants\<close>

definition BOOTSTRAP :: u64 where "BOOTSTRAP = 0x4b530001"
definition MAGIC :: u32 where "MAGIC = 0x42464946"
definition BP_EXECUTE :: i32 where "BP_EXECUTE = 0"
definition BP_READ :: i32 where "BP_READ = 1"
definition BP_WRITE :: i32 where "BP_WRITE = 2"
definition BP_READWRITE :: i32 where "BP_READWRITE = 3"
definition BP_F_DETAIL :: u32 where "BP_F_DETAIL = 1"
definition BP_F_BACKTRACE :: u32 where "BP_F_BACKTRACE = 2"
definition BT_MAX :: nat where "BT_MAX = 32"
definition MAPS_FILTER_ADD :: u64 where "MAPS_FILTER_ADD = 621"
definition MAPS_FILTER_REMOVE :: u64 where "MAPS_FILTER_REMOVE = 622"
definition MAPS_FILTER_CLEAR :: u64 where "MAPS_FILTER_CLEAR = 623"
definition MAPS_FILTER_ENABLE :: u64 where "MAPS_FILTER_ENABLE = 624"
definition READ :: u64 where "READ = 601"
definition WRITE :: u64 where "WRITE = 602"

subsection \<open>Structures\<close>

record memory_req =
  mm_pid :: i32
  mm_res :: u32
  mm_addr :: u64
  mm_buffer :: u64
  mm_size :: u64

record boot_req =
  bo_magic :: u32
  bo_fd :: i32

record snapshot =
  sn_regs :: "u64 list"
  sn_sp :: u64
  sn_pc :: u64
  sn_pstate :: u64
  sn_vregs :: "(u64 \<times> u64) list"
  sn_fpsr :: u32
  sn_fpcr :: u32

definition default_snapshot :: snapshot where
  "default_snapshot = \<lparr>sn_regs = replicate 31 0, sn_sp = 0, sn_pc = 0, sn_pstate = 0,
     sn_vregs = replicate 32 (0, 0), sn_fpsr = 0, sn_fpcr = 0\<rparr>"

record driver_hit =
  dh_sequence :: u64
  dh_timestamp :: u64
  dh_addr :: u64
  dh_pid :: i32
  dh_tid :: i32
  dh_flags :: u32
  dh_reserved :: u32
  dh_before :: snapshot
  dh_after :: snapshot
  dh_bt_count :: u32
  dh_bt_flags :: u32
  dh_backtrace :: "u64 list"

definition default_hit :: driver_hit where
  "default_hit = \<lparr>dh_sequence = 0, dh_timestamp = 0, dh_addr = 0, dh_pid = 0, dh_tid = 0,
     dh_flags = 0, dh_reserved = 0, dh_before = default_snapshot, dh_after = default_snapshot,
     dh_bt_count = 0, dh_bt_flags = 0, dh_backtrace = replicate BT_MAX 0\<rparr>"

record create_req =
  cr_addr :: u64
  cr_typ :: i32
  cr_len :: i32
  cr_pid :: i32
  cr_max :: i32
  cr_bp_id :: i32
  cr_flags :: u32

record hits_req =
  hq_bp_id :: i32
  hq_flags :: u32
  hq_buffer :: u64
  hq_capacity :: u32
  hq_count :: u32
  hq_total :: u64
  hq_dropped :: u64
  hq_fp :: u64

datatype request =
    Boot boot_req
  | Create create_req
  | Id i32
  | Hits hits_req
  | Maps_Filter u32
  | Maps_Filter_Rule "u8 list"
  | Memory memory_req

datatype buffer = No_Buffer | Byte_Buffer "u8 list" | Hit_Buffer "driver_hit list"

text \<open>The kernel: an error is its \<open>errno\<close> and the text the standard library prints for it.\<close>

record ioctl_reply =
  io_rc :: i32
  io_error :: "i32 \<times> str"
  io_request :: request
  io_buffer :: buffer

record 'k kernel =
  k_socket :: "'k \<Rightarrow> (i32 \<times> str) \<times> 'k"
  k_ioctl :: "i32 \<Rightarrow> u64 \<Rightarrow> request \<Rightarrow> buffer \<Rightarrow> 'k \<Rightarrow> ioctl_reply \<times> 'k"
  k_close :: "i32 \<Rightarrow> 'k \<Rightarrow> 'k"

text \<open>
  An \<open>ioctl\<close> gets a \<open>&mut T\<close> and a pointer to memory of a given length: the kernel fills in
  fields and bytes, it changes neither the type of the request nor the length of the memory.
  The definitions below give a fixed answer for a reply of another type; \<open>kernel_sane\<close> rules
  such replies out.
\<close>

fun same_request :: "request \<Rightarrow> request \<Rightarrow> bool" where
  "same_request (Boot _) (Boot _) \<longleftrightarrow> True"
| "same_request (Create _) (Create _) \<longleftrightarrow> True"
| "same_request (Id _) (Id _) \<longleftrightarrow> True"
| "same_request (Hits _) (Hits _) \<longleftrightarrow> True"
| "same_request (Maps_Filter _) (Maps_Filter _) \<longleftrightarrow> True"
| "same_request (Maps_Filter_Rule p) (Maps_Filter_Rule q) \<longleftrightarrow> length p = length q"
| "same_request (Memory _) (Memory _) \<longleftrightarrow> True"
| "same_request _ _ \<longleftrightarrow> False"

fun same_buffer :: "buffer \<Rightarrow> buffer \<Rightarrow> bool" where
  "same_buffer No_Buffer No_Buffer \<longleftrightarrow> True"
| "same_buffer (Byte_Buffer a) (Byte_Buffer b) \<longleftrightarrow> length a = length b"
| "same_buffer (Hit_Buffer a) (Hit_Buffer b) \<longleftrightarrow> length a = length b"
| "same_buffer _ _ \<longleftrightarrow> False"

definition kernel_sane :: "'k kernel \<Rightarrow> bool" where
  "kernel_sane K \<longleftrightarrow>
     (\<forall>fd n v b k reply k'. k_ioctl K fd n v b k = (reply, k') \<longrightarrow>
        same_request v (io_request reply) \<and> same_buffer b (io_buffer reply))"

lemma kernel_saneD:
  "kernel_sane K \<Longrightarrow> k_ioctl K fd n v b k = (reply, k') \<Longrightarrow>
     same_request v (io_request reply) \<and> same_buffer b (io_buffer reply)"
  unfolding kernel_sane_def by blast

subsection \<open>Errors\<close>

datatype lk_error =
    SocketFailed str
  | BootstrapUnhandled i32 i32 str
  | BootstrapFailed i32 i32 str
  | BootstrapNoFd i32 i32
  | IoctlFailed u64 str

definition show_i32 :: "i32 \<Rightarrow> str" where
  "show_i32 x = (if sint x < 0 then ''-'' @ show_nat (nat (- sint x)) else show_nat (nat (sint x)))"

definition bootstrap_context :: "i32 \<Rightarrow> i32 \<Rightarrow> str" where
  "bootstrap_context rc fd =
     ''LK1337 bootstrap failed (command=0x'' @ pad 8 (show_radix 16 (unat BOOTSTRAP))
     @ '', magic=0x'' @ pad 8 (show_radix 16 (unat MAGIC)) @ '', request_size=8, rc=''
     @ show_i32 rc @ '', returned_fd='' @ show_i32 fd @ '')''"

fun lk_error_text :: "lk_error \<Rightarrow> str" where
  "lk_error_text (SocketFailed e) = ''LK1337 socket failed: '' @ e"
| "lk_error_text (BootstrapUnhandled rc fd e) = bootstrap_context rc fd @ '': '' @ e
     @ ''; bootstrap ioctl was not handled on this socket and no driver FD was returned; memory ioctl 601/602 was not attempted''"
| "lk_error_text (BootstrapFailed rc fd e) = bootstrap_context rc fd @ '': '' @ e"
| "lk_error_text (BootstrapNoFd rc fd) =
     bootstrap_context rc fd @ '': ioctl succeeded but did not return a driver FD''"
| "lk_error_text (IoctlFailed n e) = ''ioctl '' @ show_nat (unat n) @ '' failed: '' @ e"

subsection \<open>Opening the driver\<close>

definition bootstrap_result ::
  "sys_bindings \<Rightarrow> i32 \<Rightarrow> i32 \<Rightarrow> (i32 \<times> str) option \<Rightarrow> lk_error + i32" where
  "bootstrap_result sys fd rc err =
     (if 0 \<le> sint fd then Inr fd
      else case err of
          Some (errno, text) \<Rightarrow>
            if errno = ENOTTY sys then Inl (BootstrapUnhandled rc fd text)
            else Inl (BootstrapFailed rc fd text)
        | None \<Rightarrow> Inl (BootstrapNoFd rc fd))"

text \<open>The socket is owned: it is closed when \<open>open\<close> returns, on the error path too.\<close>

definition driver_open :: "sys_bindings \<Rightarrow> 'k kernel \<Rightarrow> 'k \<Rightarrow> (lk_error + i32) \<times> 'k" where
  "driver_open sys K k =
     (case k_socket K k of
        ((sock, text), k1) \<Rightarrow>
          if sint sock < 0 then (Inl (SocketFailed text), k1)
          else case k_ioctl K sock BOOTSTRAP (Boot \<lparr>bo_magic = MAGIC, bo_fd = -1\<rparr>) No_Buffer k1 of
              (reply, k2) \<Rightarrow>
                (bootstrap_result sys
                   (case io_request reply of Boot b \<Rightarrow> bo_fd b | _ \<Rightarrow> -1)
                   (io_rc reply)
                   (if sint (io_rc reply) < 0 then Some (io_error reply) else None),
                 k_close K sock k2))"

definition driver_drop :: "'k kernel \<Rightarrow> i32 \<Rightarrow> 'k \<Rightarrow> 'k" where
  "driver_drop K fd k = k_close K fd k"

subsection \<open>Requests\<close>

definition driver_io ::
  "'k kernel \<Rightarrow> i32 \<Rightarrow> u64 \<Rightarrow> request \<Rightarrow> buffer \<Rightarrow> 'k \<Rightarrow> (lk_error + request \<times> buffer) \<times> 'k" where
  "driver_io K fd n v b k =
     (case k_ioctl K fd n v b k of
        (reply, k') \<Rightarrow>
          (if sint (io_rc reply) < 0 then Inl (IoctlFailed n (snd (io_error reply)))
           else Inr (io_request reply, io_buffer reply), k'))"

definition driver_create ::
  "'k kernel \<Rightarrow> i32 \<Rightarrow> u64 \<Rightarrow> i32 \<Rightarrow> i32 \<Rightarrow> i32 \<Rightarrow> i32 \<Rightarrow> u32 \<Rightarrow> 'k \<Rightarrow> (lk_error + i32) \<times> 'k" where
  "driver_create K fd addr typ len pid cap flags k =
     (case driver_io K fd 610
         (Create \<lparr>cr_addr = addr, cr_typ = typ, cr_len = len, cr_pid = pid, cr_max = cap,
            cr_bp_id = -1, cr_flags = flags\<rparr>) No_Buffer k of
        (r, k') \<Rightarrow> (and_then r (\<lambda>(req, _). Inr (case req of Create c \<Rightarrow> cr_bp_id c | _ \<Rightarrow> -1)), k'))"

definition driver_remove :: "'k kernel \<Rightarrow> i32 \<Rightarrow> i32 \<Rightarrow> 'k \<Rightarrow> (lk_error + unit) \<times> 'k" where
  "driver_remove K fd bp k =
     (case driver_io K fd 611 (Id bp) No_Buffer k of (r, k') \<Rightarrow> (and_then r (\<lambda>_. Inr ()), k'))"

definition driver_hits ::
  "'k kernel \<Rightarrow> u64 \<Rightarrow> i32 \<Rightarrow> i32 \<Rightarrow> 'k \<Rightarrow> (lk_error + driver_hit list) \<times> 'k" where
  "driver_hits K ptr fd bp k =
     (case driver_io K fd 616
         (Hits \<lparr>hq_bp_id = bp, hq_flags = 1, hq_buffer = ptr, hq_capacity = 256, hq_count = 0,
            hq_total = 0, hq_dropped = 0, hq_fp = 0\<rparr>)
         (Hit_Buffer (replicate 256 default_hit)) k of
        (r, k') \<Rightarrow>
          (and_then r (\<lambda>(req, b).
             let count = (case req of Hits h \<Rightarrow> unat (hq_count h) | _ \<Rightarrow> 0);
                 v = (case b of Hit_Buffer hs \<Rightarrow> hs | _ \<Rightarrow> [])
             in Inr (take count v)), k'))"

definition enable_maps_filter :: "'k kernel \<Rightarrow> i32 \<Rightarrow> bool \<Rightarrow> 'k \<Rightarrow> (lk_error + unit) \<times> 'k" where
  "enable_maps_filter K fd enable k =
     (case driver_io K fd MAPS_FILTER_ENABLE (Maps_Filter (if enable then 1 else 0)) No_Buffer k of
        (r, k') \<Rightarrow> (and_then r (\<lambda>_. Inr ()), k'))"

definition clear_maps_filter :: "'k kernel \<Rightarrow> i32 \<Rightarrow> 'k \<Rightarrow> (lk_error + unit) \<times> 'k" where
  "clear_maps_filter K fd k =
     (case driver_io K fd MAPS_FILTER_CLEAR (Maps_Filter 0) No_Buffer k of
        (r, k') \<Rightarrow> (and_then r (\<lambda>_. Inr ()), k'))"

text \<open>The 256-byte pattern field: at most 255 bytes of the pattern over zeros.\<close>

definition rule_pattern :: "str \<Rightarrow> u8 list" where
  "rule_pattern pattern =
     (let b = map (\<lambda>c. of_nat (byte c)) pattern; n = min (length b) (256 - 1)
      in take n b @ drop n (replicate 256 0))"

definition add_maps_rule :: "'k kernel \<Rightarrow> i32 \<Rightarrow> str \<Rightarrow> 'k \<Rightarrow> (lk_error + unit) \<times> 'k" where
  "add_maps_rule K fd pattern k =
     (case driver_io K fd MAPS_FILTER_ADD (Maps_Filter_Rule (rule_pattern pattern)) No_Buffer k of
        (r, k') \<Rightarrow> (and_then r (\<lambda>_. Inr ()), k'))"

definition remove_maps_rule :: "'k kernel \<Rightarrow> i32 \<Rightarrow> str \<Rightarrow> 'k \<Rightarrow> (lk_error + unit) \<times> 'k" where
  "remove_maps_rule K fd pattern k =
     (case driver_io K fd MAPS_FILTER_REMOVE (Maps_Filter_Rule (rule_pattern pattern)) No_Buffer k of
        (r, k') \<Rightarrow> (and_then r (\<lambda>_. Inr ()), k'))"

definition driver_read_memory ::
  "'k kernel \<Rightarrow> u64 \<Rightarrow> i32 \<Rightarrow> i32 \<Rightarrow> u64 \<Rightarrow> nat \<Rightarrow> 'k \<Rightarrow> (lk_error + u8 list) \<times> 'k" where
  "driver_read_memory K ptr fd pid addr n k =
     (case driver_io K fd READ
         (Memory \<lparr>mm_pid = pid, mm_res = 0, mm_addr = addr, mm_buffer = ptr, mm_size = of_nat n\<rparr>)
         (Byte_Buffer (replicate n 0)) k of
        (r, k') \<Rightarrow>
          (and_then r (\<lambda>(_, b). Inr (case b of Byte_Buffer bs \<Rightarrow> bs | _ \<Rightarrow> replicate n 0)), k'))"

definition driver_write_memory ::
  "'k kernel \<Rightarrow> u64 \<Rightarrow> i32 \<Rightarrow> i32 \<Rightarrow> u64 \<Rightarrow> u8 list \<Rightarrow> 'k \<Rightarrow> (lk_error + unit) \<times> 'k" where
  "driver_write_memory K ptr fd pid addr data k =
     (case driver_io K fd WRITE
         (Memory \<lparr>mm_pid = pid, mm_res = 0, mm_addr = addr, mm_buffer = ptr, mm_size = of_nat (length data)\<rparr>)
         (Byte_Buffer data) k of
        (r, k') \<Rightarrow> (and_then r (\<lambda>_. Inr ()), k'))"

subsection \<open>What the driver calls return\<close>

lemma same_buffer_bytes: "same_buffer (Byte_Buffer a) b \<longleftrightarrow> (\<exists>c. b = Byte_Buffer c \<and> length c = length a)"
  by (cases b) auto

lemma same_buffer_hits: "same_buffer (Hit_Buffer a) b \<longleftrightarrow> (\<exists>c. b = Hit_Buffer c \<and> length c = length a)"
  by (cases b) auto

lemma same_request_hits: "same_request (Hits h) r \<longleftrightarrow> (\<exists>h'. r = Hits h')"
  by (cases r) auto

lemma driver_io_sane:
  assumes "kernel_sane K" and "driver_io K fd n v b k = (Inr (v', b'), k')"
  shows "same_request v v' \<and> same_buffer b b'"
proof -
  from assms(2) obtain reply where "k_ioctl K fd n v b k = (reply, k')"
    and "v' = io_request reply" and "b' = io_buffer reply"
    by (auto simp: driver_io_def split: prod.splits if_splits)
  with kernel_saneD [OF assms(1)] show ?thesis by blast
qed

lemma driver_read_length:
  assumes "kernel_sane K" and "driver_read_memory K ptr fd pid addr n k = (Inr bs, k')"
  shows "length bs = n"
proof -
  from assms(2) obtain v b where
    io: "driver_io K fd READ (Memory \<lparr>mm_pid = pid, mm_res = 0, mm_addr = addr, mm_buffer = ptr,
      mm_size = of_nat n\<rparr>) (Byte_Buffer (replicate n 0)) k = (Inr (v, b), k')"
    and bs: "bs = (case b of Byte_Buffer bs \<Rightarrow> bs | _ \<Rightarrow> replicate n 0)"
    by (auto simp: driver_read_memory_def res_simps split: prod.splits)
  from driver_io_sane [OF assms(1) io] bs show ?thesis by (auto simp: same_buffer_bytes)
qed

lemma driver_hits_bound:
  assumes "kernel_sane K" and "driver_hits K ptr fd bp k = (Inr hs, k')"
  shows "length hs \<le> 256"
proof -
  from assms(2) obtain v b where
    io: "driver_io K fd 616 (Hits \<lparr>hq_bp_id = bp, hq_flags = 1, hq_buffer = ptr, hq_capacity = 256,
      hq_count = 0, hq_total = 0, hq_dropped = 0, hq_fp = 0\<rparr>)
      (Hit_Buffer (replicate 256 default_hit)) k = (Inr (v, b), k')"
    and hs: "hs = take (case v of Hits h \<Rightarrow> unat (hq_count h) | _ \<Rightarrow> 0)
      (case b of Hit_Buffer hs \<Rightarrow> hs | _ \<Rightarrow> [])"
    by (auto simp: driver_hits_def res_simps Let_def split: prod.splits)
  from driver_io_sane [OF assms(1) io] hs show ?thesis by (auto simp: same_buffer_hits)
qed

lemma length_rule_pattern: "length (rule_pattern p) = 256"
  by (simp add: rule_pattern_def Let_def)

lemma rule_pattern_nth:
  "i < 256 \<Longrightarrow> rule_pattern p ! i = (if i < min (length p) 255 then of_nat (byte (p ! i)) else 0)"
  by (auto simp: rule_pattern_def Let_def nth_append)

subsection \<open>File descriptors\<close>

text \<open>
  \<open>fd_laws K fds\<close>: \<open>fds k\<close> is the set of descriptors the process holds in kernel state \<open>k\<close>;
  \<open>socket\<close> adds the one it returns, a bootstrap call adds the one it hands back, no other
  \<open>ioctl\<close> changes the set, and \<open>close\<close> removes its argument.
\<close>

fun boot_fd :: "request \<Rightarrow> request \<Rightarrow> i32 option" where
  "boot_fd (Boot _) (Boot r) = (if 0 \<le> sint (bo_fd r) then Some (bo_fd r) else None)"
| "boot_fd _ _ = None"

definition fd_laws :: "'k kernel \<Rightarrow> ('k \<Rightarrow> i32 set) \<Rightarrow> bool" where
  "fd_laws K fds \<longleftrightarrow>
     (\<forall>k s t k'. k_socket K k = ((s, t), k') \<longrightarrow>
        (if sint s < 0 then fds k' = fds k else s \<notin> fds k \<and> fds k' = insert s (fds k))) \<and>
     (\<forall>fd n v b k reply k'. k_ioctl K fd n v b k = (reply, k') \<longrightarrow>
        (case boot_fd v (io_request reply) of
           Some d \<Rightarrow> d \<notin> fds k \<and> fds k' = insert d (fds k)
         | None \<Rightarrow> fds k' = fds k)) \<and>
     (\<forall>fd k. fds (k_close K fd k) = fds k - {fd})"

lemma fd_laws_socket:
  "fd_laws K fds \<Longrightarrow> k_socket K k = ((s, t), k') \<Longrightarrow>
     if sint s < 0 then fds k' = fds k else s \<notin> fds k \<and> fds k' = insert s (fds k)"
  unfolding fd_laws_def by blast

lemma fd_laws_ioctl:
  "fd_laws K fds \<Longrightarrow> k_ioctl K fd n v b k = (reply, k') \<Longrightarrow>
     (case boot_fd v (io_request reply) of
        Some d \<Rightarrow> d \<notin> fds k \<and> fds k' = insert d (fds k)
      | None \<Rightarrow> fds k' = fds k)"
  unfolding fd_laws_def by blast

lemma fd_laws_close: "fd_laws K fds \<Longrightarrow> fds (k_close K fd k) = fds k - {fd}"
  unfolding fd_laws_def by blast

lemma boot_fd_other: "\<forall>b. v \<noteq> Boot b \<Longrightarrow> boot_fd v r = None"
  by (cases v) auto

lemma driver_io_fds:
  assumes "fd_laws K fds" and "\<forall>b. v \<noteq> Boot b" and "driver_io K fd n v b k = (r, k')"
  shows "fds k' = fds k"
proof -
  obtain reply where io: "k_ioctl K fd n v b k = (reply, k')"
    using assms(3) by (auto simp: driver_io_def split: prod.splits)
  from fd_laws_ioctl [OF assms(1) io] boot_fd_other [OF assms(2)] show ?thesis by simp
qed

lemma bootstrap_result_no_fd: "\<not> 0 \<le> sint fd \<Longrightarrow> \<exists>e. bootstrap_result sys fd rc err = Inl e"
  by (cases err) (auto simp: bootstrap_result_def)

text \<open>Opening adds exactly the driver's descriptor; a failure to open adds none.\<close>

lemma driver_open_fds:
  assumes laws: "fd_laws K fds" and sane: "kernel_sane K" and "driver_open sys K k = (r, k')"
  shows "case r of Inl e \<Rightarrow> fds k' = fds k
    | Inr fd \<Rightarrow> 0 \<le> sint fd \<and> fd \<notin> fds k \<and> fds k' = insert fd (fds k)"
proof -
  obtain s t k1 where s: "k_socket K k = ((s, t), k1)" by (metis prod_cases3 surj_pair)
  note sl = fd_laws_socket [OF laws s]
  show ?thesis
  proof (cases "sint s < 0")
    case True
    with s sl assms(3) show ?thesis by (auto simp: driver_open_def)
  next
    case False
    let ?v = "Boot \<lparr>bo_magic = MAGIC, bo_fd = -1\<rparr>"
    obtain reply k2 where io: "k_ioctl K s BOOTSTRAP ?v No_Buffer k1 = (reply, k2)" by fastforce
    from kernel_saneD [OF sane io] obtain b where b: "io_request reply = Boot b"
      by (cases "io_request reply") auto
    note il = fd_laws_ioctl [OF laws io, unfolded b]
    note cl = fd_laws_close [OF laws, of s k2]
    from False s io b assms(3) have
      r: "r = bootstrap_result sys (bo_fd b) (io_rc reply)
          (if sint (io_rc reply) < 0 then Some (io_error reply) else None)"
      and k': "k' = k_close K s k2"
      by (auto simp: driver_open_def)
    show ?thesis
    proof (cases "0 \<le> sint (bo_fd b)")
      case True
      then have "r = Inr (bo_fd b)" using r by (simp add: bootstrap_result_def)
      moreover have "fds k2 = insert (bo_fd b) (insert s (fds k))" and "bo_fd b \<notin> insert s (fds k)"
        using il sl False True by simp_all
      ultimately show ?thesis using cl k' sl False True by auto
    next
      case neg: False
      then obtain e where "r = Inl e"
        using r bootstrap_result_no_fd by blast
      moreover have "fds k2 = insert s (fds k)" using il sl False neg by simp
      ultimately show ?thesis using cl k' sl False by simp
    qed
  qed
qed

subsection \<open>Laws of process memory\<close>

text \<open>
  \<open>mem k pid a\<close> is the byte at address \<open>a\<close> of process \<open>pid\<close>. A successful \<open>READ\<close> fills the
  buffer from it, a successful \<open>WRITE\<close> stores the buffer, opening and closing leave it alone.
\<close>

definition store_bytes :: "u64 \<Rightarrow> u8 list \<Rightarrow> (u64 \<Rightarrow> u8) \<Rightarrow> u64 \<Rightarrow> u8" where
  "store_bytes a bs m x = (if unat (x - a) < length bs then bs ! unat (x - a) else m x)"

definition load_bytes :: "u64 \<Rightarrow> nat \<Rightarrow> (u64 \<Rightarrow> u8) \<Rightarrow> u8 list" where
  "load_bytes a n m = map (\<lambda>i. m (a + of_nat i)) [0..<n]"

lemma length_load_bytes [simp]: "length (load_bytes a n m) = n"
  by (simp add: load_bytes_def)

lemma load_store: "length bs \<le> 2 ^ 64 \<Longrightarrow> load_bytes a (length bs) (store_bytes a bs m) = bs"
  by (rule nth_equalityI) (simp_all add: load_bytes_def store_bytes_def unat_of_nat_u64)

definition mem_laws :: "'k kernel \<Rightarrow> ('k \<Rightarrow> i32 \<Rightarrow> u64 \<Rightarrow> u8) \<Rightarrow> bool" where
  "mem_laws K mem \<longleftrightarrow>
     (\<forall>k r k'. k_socket K k = (r, k') \<longrightarrow> mem k' = mem k) \<and>
     (\<forall>fd k. mem (k_close K fd k) = mem k) \<and>
     (\<forall>fd v b k reply k'. k_ioctl K fd BOOTSTRAP v b k = (reply, k') \<longrightarrow> mem k' = mem k) \<and>
     (\<forall>fd m bs k reply k'. k_ioctl K fd READ (Memory m) (Byte_Buffer bs) k = (reply, k') \<longrightarrow>
        0 \<le> sint (io_rc reply) \<longrightarrow>
        io_buffer reply = Byte_Buffer (load_bytes (mm_addr m) (length bs) (mem k (mm_pid m)))) \<and>
     (\<forall>fd m bs k reply k'. k_ioctl K fd WRITE (Memory m) (Byte_Buffer bs) k = (reply, k') \<longrightarrow>
        0 \<le> sint (io_rc reply) \<longrightarrow>
        mem k' (mm_pid m) = store_bytes (mm_addr m) bs (mem k (mm_pid m)))"

lemma mem_laws_open:
  assumes "mem_laws K mem" and "driver_open sys K k = (r, k')"
  shows "mem k' = mem k"
proof -
  obtain s t k1 where s: "k_socket K k = ((s, t), k1)" by (metis prod_cases3 surj_pair)
  obtain reply k2 where io: "k_ioctl K s BOOTSTRAP (Boot \<lparr>bo_magic = MAGIC, bo_fd = -1\<rparr>) No_Buffer k1 = (reply, k2)"
    by fastforce
  note laws = assms(1) [unfolded mem_laws_def]
  have "mem k1 = mem k" by (rule laws [THEN conjunct1, rule_format, OF s])
  moreover have "mem k2 = mem k1"
    by (rule laws [THEN conjunct2, THEN conjunct2, THEN conjunct1, rule_format, OF io])
  moreover have "mem (k_close K s k2) = mem k2"
    by (rule laws [THEN conjunct2, THEN conjunct1, rule_format])
  ultimately show ?thesis using assms(2) s io by (auto simp: driver_open_def split: if_splits)
qed

lemma mem_laws_close: "mem_laws K mem \<Longrightarrow> mem (driver_drop K fd k) = mem k"
  by (simp add: mem_laws_def driver_drop_def)

lemma mem_laws_read:
  assumes "mem_laws K mem" and "driver_read_memory K ptr fd pid a n k = (Inr bs, k')"
  shows "bs = load_bytes a n (mem k pid)"
proof -
  from assms(2) obtain reply where "k_ioctl K fd READ (Memory \<lparr>mm_pid = pid, mm_res = 0, mm_addr = a,
      mm_buffer = ptr, mm_size = of_nat n\<rparr>) (Byte_Buffer (replicate n 0)) k = (reply, k')"
    and "0 \<le> sint (io_rc reply)"
    and "bs = (case io_buffer reply of Byte_Buffer bs \<Rightarrow> bs | _ \<Rightarrow> replicate n 0)"
    by (auto simp: driver_read_memory_def driver_io_def res_simps split: prod.splits if_splits)
  moreover from this(1,2) have "io_buffer reply = Byte_Buffer (load_bytes a n (mem k pid))"
    using assms(1) unfolding mem_laws_def by fastforce
  ultimately show ?thesis by simp
qed

lemma mem_laws_write:
  assumes "mem_laws K mem" and "driver_write_memory K ptr fd pid a bs k = (Inr u, k')"
  shows "mem k' pid = store_bytes a bs (mem k pid)"
proof -
  from assms(2) obtain reply where "k_ioctl K fd WRITE (Memory \<lparr>mm_pid = pid, mm_res = 0, mm_addr = a,
      mm_buffer = ptr, mm_size = of_nat (length bs)\<rparr>) (Byte_Buffer bs) k = (reply, k')"
    and "0 \<le> sint (io_rc reply)"
    by (auto simp: driver_write_memory_def driver_io_def res_simps split: prod.splits if_splits)
  then show ?thesis using assms(1) unfolding mem_laws_def by fastforce
qed

subsection \<open>Memory layout of the structures\<close>

text \<open>
  \<open>repr(C)\<close>: fields in order, each at the next multiple of its alignment, the size rounded up
  to the largest alignment. The field lists are those of the Rust structures.
\<close>

datatype ctype = Int_Type nat | Array_Type nat ctype | Struct_Type "(str \<times> ctype) list"

definition round_up :: "nat \<Rightarrow> nat \<Rightarrow> nat" where
  "round_up n a = (if a = 0 then n else (n + a - 1) div a * a)"

fun align_of :: "ctype \<Rightarrow> nat" where
  "align_of (Int_Type n) = n"
| "align_of (Array_Type n t) = align_of t"
| "align_of (Struct_Type fs) = fold max (map (\<lambda>(_, t). align_of t) fs) 1"

fun size_of_type :: "ctype \<Rightarrow> nat" and place_fields :: "nat \<Rightarrow> (str \<times> ctype) list \<Rightarrow> (str \<times> nat) list \<times> nat" where
  "size_of_type (Int_Type n) = n"
| "size_of_type (Array_Type n t) = n * size_of_type t"
| "size_of_type (Struct_Type fs) = round_up (snd (place_fields 0 fs)) (align_of (Struct_Type fs))"
| "place_fields n [] = ([], n)"
| "place_fields n ((name, t) # fs) =
     (let at = round_up n (align_of t);
          r = place_fields (at + size_of_type t) fs
      in ((name, at) # fst r, snd r))"

definition offsets :: "(str \<times> ctype) list \<Rightarrow> (str \<times> nat) list" where
  "offsets fs = fst (place_fields 0 fs)"

abbreviation "c_u8 \<equiv> Int_Type 1"
abbreviation "c_u32 \<equiv> Int_Type 4"
abbreviation "c_i32 \<equiv> Int_Type 4"
abbreviation "c_u64 \<equiv> Int_Type 8"

definition memory_fields :: "(str \<times> ctype) list" where
  "memory_fields = [(''pid'', c_i32), (''res'', c_u32), (''addr'', c_u64), (''buffer'', c_u64), (''size'', c_u64)]"

definition boot_fields :: "(str \<times> ctype) list" where
  "boot_fields = [(''magic'', c_u32), (''fd'', c_i32)]"

definition snapshot_fields :: "(str \<times> ctype) list" where
  "snapshot_fields = [(''regs'', Array_Type 31 c_u64), (''sp'', c_u64), (''pc'', c_u64),
     (''pstate'', c_u64), (''vregs'', Array_Type 32 (Array_Type 2 c_u64)), (''fpsr'', c_u32), (''fpcr'', c_u32)]"

definition hit_fields :: "(str \<times> ctype) list" where
  "hit_fields = [(''sequence'', c_u64), (''timestamp'', c_u64), (''addr'', c_u64), (''pid'', c_i32),
     (''tid'', c_i32), (''flags'', c_u32), (''reserved'', c_u32), (''before'', Struct_Type snapshot_fields),
     (''after'', Struct_Type snapshot_fields), (''bt_count'', c_u32), (''bt_flags'', c_u32),
     (''backtrace'', Array_Type BT_MAX c_u64)]"

definition create_fields :: "(str \<times> ctype) list" where
  "create_fields = [(''addr'', c_u64), (''typ'', c_i32), (''len'', c_i32), (''pid'', c_i32),
     (''max'', c_i32), (''bp_id'', c_i32), (''flags'', c_u32)]"

definition hits_fields :: "(str \<times> ctype) list" where
  "hits_fields = [(''bp_id'', c_i32), (''flags'', c_u32), (''buffer'', c_u64), (''capacity'', c_u32),
     (''count'', c_u32), (''total'', c_u64), (''dropped'', c_u64), (''fp'', c_u64)]"

lemmas layout_defs = offsets_def memory_fields_def boot_fields_def snapshot_fields_def hit_fields_def
  create_fields_def hits_fields_def round_up_def BT_MAX_def

text \<open>No padding between the fields: they end where their sizes add up to.\<close>

definition no_gaps :: "(str \<times> ctype) list \<Rightarrow> bool" where
  "no_gaps fs \<longleftrightarrow> snd (place_fields 0 fs) = sum_list (map (\<lambda>(_, t). size_of_type t) fs)"

lemma place_step: "place_fields n ((name, t) # fs) =
   ((name, round_up n (align_of t)) # fst (place_fields (round_up n (align_of t) + size_of_type t) fs),
     snd (place_fields (round_up n (align_of t) + size_of_type t) fs))"
  by (simp add: Let_def)

lemma layout_scalar:
  "align_of c_u64 = 8" "align_of c_u32 = 4" "align_of (Array_Type n t) = align_of t"
  "size_of_type c_u64 = 8" "size_of_type c_u32 = 4" "size_of_type (Array_Type n t) = n * size_of_type t"
  "round_up m 8 = (m + 7) div 8 * 8" "round_up m 4 = (m + 3) div 4 * 4"
  by (simp_all add: round_up_def)

lemmas place_simps = place_step layout_scalar place_fields.simps(1) fst_conv snd_conv BT_MAX_def

lemma place_memory:
  "place_fields 0 memory_fields = ([(''pid'', 0), (''res'', 4), (''addr'', 8), (''buffer'', 16), (''size'', 24)], 32)"
  by (simp only: memory_fields_def place_simps) simp

lemma place_boot: "place_fields 0 boot_fields = ([(''magic'', 0), (''fd'', 4)], 8)"
  by (simp only: boot_fields_def place_simps) simp

lemma place_create:
  "place_fields 0 create_fields = ([(''addr'', 0), (''typ'', 8), (''len'', 12), (''pid'', 16), (''max'', 20),
     (''bp_id'', 24), (''flags'', 28)], 32)"
  by (simp only: create_fields_def place_simps) simp

lemma place_hits:
  "place_fields 0 hits_fields = ([(''bp_id'', 0), (''flags'', 4), (''buffer'', 8), (''capacity'', 16),
     (''count'', 20), (''total'', 24), (''dropped'', 32), (''fp'', 40)], 48)"
  by (simp only: hits_fields_def place_simps) simp

lemma place_snapshot:
  "place_fields 0 snapshot_fields = ([(''regs'', 0), (''sp'', 248), (''pc'', 256), (''pstate'', 264), (''vregs'', 272),
     (''fpsr'', 784), (''fpcr'', 788)], 792)"
  by (simp only: snapshot_fields_def place_simps) simp

lemma align_struct:
  "align_of (Struct_Type memory_fields) = 8" "align_of (Struct_Type boot_fields) = 4"
  "align_of (Struct_Type create_fields) = 8" "align_of (Struct_Type hits_fields) = 8"
  "align_of (Struct_Type snapshot_fields) = 8"
  by (simp_all add: memory_fields_def boot_fields_def create_fields_def hits_fields_def snapshot_fields_def)

lemma size_struct:
  "size_of_type (Struct_Type memory_fields) = 32" "size_of_type (Struct_Type boot_fields) = 8"
  "size_of_type (Struct_Type create_fields) = 32" "size_of_type (Struct_Type hits_fields) = 48"
  "size_of_type (Struct_Type snapshot_fields) = 792"
  by (simp_all only: size_of_type.simps(3) place_memory place_boot place_create place_hits place_snapshot align_struct
      layout_scalar snd_conv) simp_all

lemma place_hit:
  "place_fields 0 hit_fields = ([(''sequence'', 0), (''timestamp'', 8), (''addr'', 16), (''pid'', 24), (''tid'', 28),
     (''flags'', 32), (''reserved'', 36), (''before'', 40), (''after'', 832), (''bt_count'', 1624), (''bt_flags'', 1628),
     (''backtrace'', 1632)], 1888)"
  by (simp only: hit_fields_def place_simps align_struct size_struct) simp

lemma align_hit: "align_of (Struct_Type hit_fields) = 8"
  by (subst align_of.simps(3)) (simp add: hit_fields_def align_struct del: align_of.simps(3))

lemma size_hit: "size_of_type (Struct_Type hit_fields) = 1888"
  by (simp only: size_of_type.simps(3) place_hit align_hit layout_scalar snd_conv) simp

lemma no_gapsI: "place_fields 0 fs = (os, n) \<Longrightarrow> sum_list (map (size_of_type \<circ> snd) fs) = n \<Longrightarrow> no_gaps fs"
  by (simp add: no_gaps_def comp_def case_prod_unfold)

lemma no_gaps_all:
  "no_gaps memory_fields" "no_gaps boot_fields" "no_gaps create_fields" "no_gaps hits_fields"
  "no_gaps snapshot_fields" "no_gaps hit_fields"
       apply (rule no_gapsI [OF place_memory], simp add: memory_fields_def)
      apply (rule no_gapsI [OF place_boot], simp add: boot_fields_def)
     apply (rule no_gapsI [OF place_create], simp add: create_fields_def)
    apply (rule no_gapsI [OF place_hits], simp add: hits_fields_def)
   apply (rule no_gapsI [OF place_snapshot], simp add: snapshot_fields_def)
  apply (rule no_gapsI [OF place_hit])
  apply (simp add: hit_fields_def size_struct BT_MAX_def del: size_of_type.simps(3))
  done

text \<open>
  The layout the C rules give the structures exchanged with the driver: their sizes, the offsets the
  tests of the program name, no padding between any two fields of any of them, so that no uninitialised
  byte lies inside a request, and hits that are a multiple of their alignment apart in the 256-entry
  buffer.
\<close>

lemma driver_structs_layout:
  "list_all no_gaps [memory_fields, boot_fields, snapshot_fields, hit_fields, create_fields, hits_fields]
    \<and> map (\<lambda>fs. size_of_type (Struct_Type fs))
        [memory_fields, boot_fields, snapshot_fields, hit_fields, create_fields, hits_fields] = [32, 8, 792, 1888, 32, 48]
    \<and> offsets memory_fields = [(''pid'', 0), (''res'', 4), (''addr'', 8), (''buffer'', 16), (''size'', 24)]
    \<and> offsets boot_fields = [(''magic'', 0), (''fd'', 4)]
    \<and> map (map_of (offsets hit_fields)) [''before'', ''after'', ''bt_count'', ''backtrace'']
        = [Some 40, Some 832, Some 1624, Some 1632]
    \<and> size_of_type (Struct_Type hit_fields) mod align_of (Struct_Type hit_fields) = 0"
  by (simp add: no_gaps_all size_struct size_hit align_hit offsets_def place_memory place_boot place_hit
      del: size_of_type.simps align_of.simps)

end
