(* ===== verification/Demo_Kernel.thy ===== *)
theory Demo_Kernel
  imports Lk_Driver
begin

section \<open>A small kernel that keeps the laws\<close>

text \<open>
  A concrete kernel: a socket is descriptor 3, the driver is descriptor 4, the memory of a
  process is a function, every breakpoint is installed under its thread's number and has one
  hit ready in every poll, with that number in register 0; the removal of a breakpoint that is not installed is refused. It satisfies the laws the development assumes of a kernel
  (\<open>kernel_sane\<close>, \<open>fd_laws\<close>, \<open>mem_laws\<close>), so the theorems that need them apply to it.
\<close>

subsection \<open>The kernel\<close>

record demo =
  dk_fds :: "i32 list"
  dk_mem :: "i32 \<Rightarrow> u64 \<Rightarrow> u8"
  dk_breakpoints :: "i32 list"
  dk_refused :: "i32 list"

definition demo_start :: demo where
  "demo_start = \<lparr>dk_fds = [], dk_mem = \<lambda>_ _. 0, dk_breakpoints = [], dk_refused = []\<rparr>"

definition demo_socket :: "demo \<Rightarrow> (i32 \<times> str) \<times> demo" where
  "demo_socket k =
     (if 3 \<in> set (dk_fds k) then ((-1, ''busy''), k) else ((3, []), k\<lparr>dk_fds := 3 # dk_fds k\<rparr>))"

definition demo_hit :: "i32 \<Rightarrow> driver_hit" where
  "demo_hit tid = default_hit\<lparr>dh_tid := tid, dh_bt_count := 2,
     dh_after := default_snapshot\<lparr>sn_regs := (replicate 31 0)[0 := ucast tid]\<rparr>\<rparr>"

fun demo_ioctl :: "i32 \<Rightarrow> u64 \<Rightarrow> request \<Rightarrow> buffer \<Rightarrow> demo \<Rightarrow> ioctl_reply \<times> demo" where
  "demo_ioctl fd n (Boot b) buf k =
     (if 4 \<in> set (dk_fds k)
      then (\<lparr>io_rc = -1, io_error = (16, ''busy''), io_request = Boot (b\<lparr>bo_fd := -1\<rparr>), io_buffer = buf\<rparr>, k)
      else (\<lparr>io_rc = 0, io_error = (0, []), io_request = Boot (b\<lparr>bo_fd := 4\<rparr>), io_buffer = buf\<rparr>,
            k\<lparr>dk_fds := 4 # dk_fds k\<rparr>))"
| "demo_ioctl fd n (Memory m) (Byte_Buffer bs) k =
     (if n = READ
      then (\<lparr>io_rc = 0, io_error = (0, []), io_request = Memory m,
             io_buffer = Byte_Buffer (load_bytes (mm_addr m) (length bs) (dk_mem k (mm_pid m)))\<rparr>, k)
      else if n = WRITE
      then (\<lparr>io_rc = 0, io_error = (0, []), io_request = Memory m, io_buffer = Byte_Buffer bs\<rparr>,
            k\<lparr>dk_mem := (dk_mem k)(mm_pid m := store_bytes (mm_addr m) bs (dk_mem k (mm_pid m)))\<rparr>)
      else (\<lparr>io_rc = -1, io_error = (25, ''no such request''), io_request = Memory m,
             io_buffer = Byte_Buffer bs\<rparr>, k))"
| "demo_ioctl fd n (Create c) buf k =
     (if cr_pid c \<in> set (dk_breakpoints k)
      then (\<lparr>io_rc = -1, io_error = (28, ''no slot''), io_request = Create c, io_buffer = buf\<rparr>, k)
      else (\<lparr>io_rc = 0, io_error = (0, []), io_request = Create (c\<lparr>cr_bp_id := cr_pid c\<rparr>), io_buffer = buf\<rparr>,
            k\<lparr>dk_breakpoints := cr_pid c # dk_breakpoints k\<rparr>))"
| "demo_ioctl fd n (Id i) buf k =
     (if i \<in> set (dk_breakpoints k)
      then (\<lparr>io_rc = 0, io_error = (0, []), io_request = Id i, io_buffer = buf\<rparr>,
            k\<lparr>dk_breakpoints := removeAll i (dk_breakpoints k)\<rparr>)
      else (\<lparr>io_rc = -1, io_error = (2, ''no such breakpoint''), io_request = Id i, io_buffer = buf\<rparr>,
            k\<lparr>dk_refused := i # dk_refused k\<rparr>))"
| "demo_ioctl fd n (Hits h) (Hit_Buffer hs) k =
     (\<lparr>io_rc = 0, io_error = (0, []), io_request = Hits (h\<lparr>hq_count := 1\<rparr>),
       io_buffer = Hit_Buffer (hs[0 := demo_hit (hq_bp_id h)])\<rparr>, k)"
| "demo_ioctl fd n v buf k =
     (\<lparr>io_rc = 0, io_error = (0, []), io_request = v, io_buffer = buf\<rparr>, k)"

definition demo_kernel :: "demo kernel" where
  "demo_kernel = \<lparr>k_socket = demo_socket, k_ioctl = demo_ioctl,
     k_close = \<lambda>fd k. k\<lparr>dk_fds := removeAll fd (dk_fds k)\<rparr>\<rparr>"

lemma same_request_refl [simp]: "same_request v v"
  by (cases v) simp_all

lemma same_buffer_refl [simp]: "same_buffer b b"
  by (cases b) simp_all

lemma demo_kernel_simps [simp]:
  "k_socket demo_kernel = demo_socket"
  "k_ioctl demo_kernel = demo_ioctl"
  "k_close demo_kernel fd k = k\<lparr>dk_fds := removeAll fd (dk_fds k)\<rparr>"
  by (simp_all add: demo_kernel_def)

lemma demo_sane: "kernel_sane demo_kernel"
proof -
  have "same_request v (io_request (fst (demo_ioctl fd n v b k)))
      \<and> same_buffer b (io_buffer (fst (demo_ioctl fd n v b k)))" for fd n v b k
    by (cases "(fd, n, v, b, k)" rule: demo_ioctl.cases) auto
  then show ?thesis unfolding kernel_sane_def demo_kernel_simps by (metis fst_conv)
qed

lemma demo_ioctl_fds:
  "case boot_fd v (io_request (fst (demo_ioctl fd n v b k))) of
      Some d \<Rightarrow> d \<notin> set (dk_fds k) \<and> set (dk_fds (snd (demo_ioctl fd n v b k))) = insert d (set (dk_fds k))
    | None \<Rightarrow> set (dk_fds (snd (demo_ioctl fd n v b k))) = set (dk_fds k)"
  by (cases "(fd, n, v, b, k)" rule: demo_ioctl.cases) auto

lemma demo_fd_laws: "fd_laws demo_kernel (\<lambda>k. set (dk_fds k))"
  unfolding fd_laws_def demo_kernel_simps
proof (intro conjI allI impI)
  fix k s t k'
  assume "demo_socket k = ((s, t), k')"
  then show "if sint s < 0 then set (dk_fds k') = set (dk_fds k)
    else s \<notin> set (dk_fds k) \<and> set (dk_fds k') = insert s (set (dk_fds k))"
    by (auto simp: demo_socket_def split: if_splits)
next
  fix fd n v b k reply k'
  assume "demo_ioctl fd n v b k = (reply, k')"
  then show "case boot_fd v (io_request reply) of
      Some d \<Rightarrow> d \<notin> set (dk_fds k) \<and> set (dk_fds k') = insert d (set (dk_fds k))
    | None \<Rightarrow> set (dk_fds k') = set (dk_fds k)"
    using demo_ioctl_fds [where v = v and fd = fd and n = n and b = b and k = k]
    by (simp split: option.splits)
qed auto

lemma demo_mem_laws: "mem_laws demo_kernel dk_mem"
  unfolding mem_laws_def demo_kernel_simps
proof (intro conjI allI impI)
  fix fd v b k reply k'
  assume "demo_ioctl fd BOOTSTRAP v b k = (reply, k')"
  then show "dk_mem k' = dk_mem k"
    by (cases "(fd, BOOTSTRAP, v, b, k)" rule: demo_ioctl.cases)
      (auto simp: BOOTSTRAP_def READ_def WRITE_def split: if_splits)
qed (auto simp: demo_socket_def READ_def WRITE_def split: if_splits)

lemma demo_open:
  "dk_fds k = [] \<Longrightarrow> driver_open linux demo_kernel k = (Inr 4, k\<lparr>dk_fds := [4]\<rparr>)"
  by (simp add: driver_open_def demo_socket_def bootstrap_result_def)

lemma demo_read:
  "driver_read_memory demo_kernel ptr fd pid a n k = (Inr (load_bytes a n (dk_mem k pid)), k)"
  by (simp add: driver_read_memory_def driver_io_def)

lemma demo_write:
  "driver_write_memory demo_kernel ptr fd pid a bs k =
     (Inr (), k\<lparr>dk_mem := (dk_mem k)(pid := store_bytes a bs (dk_mem k pid))\<rparr>)"
  by (simp add: driver_write_memory_def driver_io_def READ_def WRITE_def)

end
