(* ===== verification/Reg_Filter.thy ===== *)
theory Reg_Filter
  imports Perf_Ring
begin

section \<open>Register filters (src/filter.rs)\<close>

text \<open>
  The filter language: a tokenizer, a recursive-descent parser over a token vector and a
  position, and the evaluation of a filter in disjunctive normal form on a sample. The lemmas
  relate the parser to a grammar, show that printing a filter and parsing it again gives the
  filter back, and that a parsed filter only names registers of the architecture.
\<close>

subsection \<open>Data\<close>

datatype operator = Eq | Ne | Gt | Ge | Lt | Le

record predicate =
  p_reg :: nat
  p_mask :: "u64 option"
  p_op :: operator
  p_value :: u64

record reg_filter =
  groups :: "predicate list list"

datatype filter_error =
    EmptyFilter
  | UnexpectedToken str
  | UnexpectedChar str
  | ExpectedRegister
  | ExpectedMask
  | ExpectedOperator
  | ExpectedValue
  | UnknownRegister str
  | InvalidOperator str
  | BadInt int_error

fun filter_error_text :: "filter_error \<Rightarrow> str" where
  "filter_error_text EmptyFilter = ''empty register filter''"
| "filter_error_text (UnexpectedToken t) = ''unexpected token: '' @ t"
| "filter_error_text (UnexpectedChar c) = ''unexpected character in filter: '' @ c"
| "filter_error_text ExpectedRegister = ''expected register name''"
| "filter_error_text ExpectedMask = ''expected mask value after '' @ [char_of (39::nat)] @ ''&'' @ [char_of (39::nat)]"
| "filter_error_text ExpectedOperator = ''expected comparison operator''"
| "filter_error_text ExpectedValue = ''expected comparison value''"
| "filter_error_text (UnknownRegister n) = ''unknown register in filter: '' @ n"
| "filter_error_text (InvalidOperator t) = ''invalid comparison operator: '' @ t"
| "filter_error_text (BadInt e) = int_error_text e"

subsection \<open>Evaluation\<close>

fun compare_op :: "operator \<Rightarrow> u64 \<Rightarrow> u64 \<Rightarrow> bool" where
  "compare_op Eq l v \<longleftrightarrow> l = v"
| "compare_op Ne l v \<longleftrightarrow> l \<noteq> v"
| "compare_op Gt l v \<longleftrightarrow> l > v"
| "compare_op Ge l v \<longleftrightarrow> l \<ge> v"
| "compare_op Lt l v \<longleftrightarrow> l < v"
| "compare_op Le l v \<longleftrightarrow> l \<le> v"

definition get :: "'a list \<Rightarrow> nat \<Rightarrow> 'a option" where
  "get xs i = (if i < length xs then Some (xs ! i) else None)"

definition pred_matches :: "sample_data \<Rightarrow> predicate \<Rightarrow> bool" where
  "pred_matches d q =
     (case get (sd_regs d) (p_reg q) of
        None \<Rightarrow> False
      | Some r \<Rightarrow>
          compare_op (p_op q) (case p_mask q of None \<Rightarrow> r | Some m \<Rightarrow> and r m) (p_value q))"

definition matches :: "reg_filter \<Rightarrow> sample_data \<Rightarrow> bool" where
  "matches f d = list_ex (\<lambda>g. list_all (pred_matches d) g) (groups f)"

subsection \<open>Tokens\<close>

definition op_start :: "char \<Rightarrow> bool" where
  "op_start c \<longleftrightarrow> c \<in> set ''=!><&|''"

definition continues_operator :: "char \<Rightarrow> str \<Rightarrow> bool" where
  "continues_operator c rest =
     (if c \<in> set ''=!><'' then rest \<noteq> [] \<and> hd rest = CHR ''=''
      else if c = CHR ''&'' then rest \<noteq> [] \<and> hd rest = CHR ''&''
      else if c = CHR ''|'' then rest \<noteq> [] \<and> hd rest = CHR ''|''
      else False)"

definition is_word :: "char \<Rightarrow> bool" where
  "is_word c \<longleftrightarrow> is_alnum c \<or> c = CHR ''_''"

text \<open>The bytes of the character a string begins with (for the error message).\<close>

definition first_char :: "str \<Rightarrow> str" where
  "first_char s =
     (case s of [] \<Rightarrow> [] | c # _ \<Rightarrow>
        take (if byte c < 0x80 then 1 else if byte c < 0xE0 then 2 else if byte c < 0xF0 then 3 else 4) s)"

function tokenize :: "str \<Rightarrow> filter_error + str list" where
  "tokenize s =
     (case s of
        [] \<Rightarrow> Inr []
      | c # rest \<Rightarrow>
          if 0 < ws_width s then tokenize (drop (ws_width s) s)
          else if op_start c then
            (if continues_operator c rest
             then and_then (tokenize (tl rest)) (\<lambda>ts. Inr ([c, hd rest] # ts))
             else and_then (tokenize rest) (\<lambda>ts. Inr ([c] # ts)))
          else if is_word c then
            and_then (tokenize (dropWhile is_word rest))
              (\<lambda>ts. Inr ((c # takeWhile is_word rest) # ts))
          else Inl (UnexpectedChar (first_char s)))"
  by pat_completeness auto
termination
  by (relation "measure length")
     (auto simp: length_dropWhile_le le_imp_less_Suc less_Suc_eq_le)

declare tokenize.simps [simp del]

subsection \<open>Parsing one token\<close>

definition parse_reg :: "arch \<Rightarrow> str \<Rightarrow> filter_error + nat" where
  "parse_reg a name =
     ok_or (UnknownRegister name)
       (find (\<lambda>i. eq_ignore_ascii_case (id_to_str a i) name) [0..<regs_count a])"

definition parse_operator :: "str \<Rightarrow> filter_error + operator" where
  "parse_operator t =
     (if t = ''='' \<or> t = ''=='' then Inr Eq
      else if t = ''!='' then Inr Ne
      else if t = ''>'' then Inr Gt
      else if t = ''>='' then Inr Ge
      else if t = ''<'' then Inr Lt
      else if t = ''<='' then Inr Le
      else Inl (InvalidOperator t))"

definition strip_0x :: "str \<Rightarrow> str option" where
  "strip_0x s = (case strip_prefix ''0x'' s of Some t \<Rightarrow> Some t | None \<Rightarrow> strip_prefix ''0X'' s)"

definition parse_value :: "str \<Rightarrow> filter_error + u64" where
  "parse_value t =
     (case strip_0x t of
        Some h \<Rightarrow> map_err BadInt (u64_from_radix 16 h)
      | None \<Rightarrow> map_err BadInt (u64_from_radix 10 t))"

subsection \<open>The parser: a token vector and a position\<close>

record parser =
  tokens :: "str list"
  pos :: nat

definition parser_next :: "parser \<Rightarrow> (str \<times> parser) option" where
  "parser_next p = map_option (\<lambda>t. (t, p\<lparr>pos := Suc (pos p)\<rparr>)) (get (tokens p) (pos p))"

definition consume :: "str \<Rightarrow> parser \<Rightarrow> bool \<times> parser" where
  "consume expected p =
     (case get (tokens p) (pos p) of
        Some t \<Rightarrow> if eq_ignore_ascii_case t expected then (True, p\<lparr>pos := Suc (pos p)\<rparr>) else (False, p)
      | None \<Rightarrow> (False, p))"

fun consume_any :: "str list \<Rightarrow> parser \<Rightarrow> bool \<times> parser" where
  "consume_any [] p = (False, p)"
| "consume_any (e # es) p =
     (case consume e p of (b, p') \<Rightarrow> if b then (True, p') else consume_any es p')"

definition parse_mask :: "parser \<Rightarrow> filter_error + (u64 option \<times> parser)" where
  "parse_mask p =
     (case consume ''&'' p of (amp, p1) \<Rightarrow>
        if amp then
          and_then (ok_or ExpectedMask (parser_next p1)) (\<lambda>(t, p2).
          and_then (parse_value t) (\<lambda>m. Inr (Some m, p2)))
        else Inr (None, p1))"

definition parse_predicate :: "arch \<Rightarrow> parser \<Rightarrow> filter_error + (predicate \<times> parser)" where
  "parse_predicate a p =
     and_then (ok_or ExpectedRegister (parser_next p)) (\<lambda>(reg_name, p1).
     and_then (parse_reg a reg_name) (\<lambda>reg.
     and_then (parse_mask p1) (\<lambda>(mask, p2).
     and_then (ok_or ExpectedOperator (parser_next p2)) (\<lambda>(ot, p3).
     and_then (parse_operator ot) (\<lambda>oper.
     and_then (ok_or ExpectedValue (parser_next p3)) (\<lambda>(vt, p4).
     and_then (parse_value vt) (\<lambda>value.
       Inr (\<lparr>p_reg = reg, p_mask = mask, p_op = oper, p_value = value\<rparr>, p4))))))))"

subsection \<open>The grammar of predicates\<close>

text \<open>What is left to read, and the parser moved on by a number of tokens.\<close>

definition rest :: "parser \<Rightarrow> str list" where
  "rest p = drop (pos p) (tokens p)"

definition skip :: "nat \<Rightarrow> parser \<Rightarrow> parser" where
  "skip n p = p\<lparr>pos := pos p + n\<rparr>"

inductive pred_lang :: "arch \<Rightarrow> predicate \<Rightarrow> str list \<Rightarrow> bool" where
  plain: "parse_reg a r = Inr (p_reg q) \<Longrightarrow> p_mask q = None \<Longrightarrow> parse_operator t = Inr (p_op q) \<Longrightarrow>
     parse_value v = Inr (p_value q) \<Longrightarrow> pred_lang a q [r, t, v]"
| masked: "parse_reg a r = Inr (p_reg q) \<Longrightarrow> parse_value m = Inr mv \<Longrightarrow> p_mask q = Some mv \<Longrightarrow>
     parse_operator t = Inr (p_op q) \<Longrightarrow> parse_value v = Inr (p_value q) \<Longrightarrow>
     pred_lang a q [r, ''&'', m, t, v]"

lemma skip_simps [simp]:
  "tokens (skip n p) = tokens p"
  "pos (skip n p) = pos p + n"
  "skip 0 p = p"
  "skip m (skip n p) = skip (n + m) p"
  by (simp_all add: skip_def)

lemma rest_skip: "rest p = xs @ ys \<Longrightarrow> rest (skip (length xs) p) = ys"
  by (simp add: rest_def skip_def add.commute flip: drop_drop)

lemma rest_skip1: "rest p = x # ys \<Longrightarrow> rest (skip (Suc 0) p) = ys"
  using rest_skip [of p "[x]" ys] by simp

lemma rest_Cons_bound: "rest p = x # ys \<Longrightarrow> pos p < length (tokens p)"
  by (metis drop_eq_Nil2 linorder_not_le list.discI rest_def)

lemma get_rest: "get (tokens p) (pos p) = (case rest p of [] \<Rightarrow> None | t # _ \<Rightarrow> Some t)"
proof (cases "pos p < length (tokens p)")
  case True
  then show ?thesis by (simp add: get_def rest_def flip: Cons_nth_drop_Suc)
qed (simp add: get_def rest_def)

lemma parser_next_rest:
  "parser_next p = (case rest p of [] \<Rightarrow> None | t # _ \<Rightarrow> Some (t, skip 1 p))"
  by (simp add: parser_next_def get_rest skip_def split: list.split)

lemma consume_rest:
  "consume e p = (case rest p of
     [] \<Rightarrow> (False, p) | t # _ \<Rightarrow> if eq_ignore_ascii_case t e then (True, skip 1 p) else (False, p))"
  by (simp add: consume_def get_rest skip_def split: list.split)

lemma eq_ignore_case_symbol:
  assumes "list_all (\<lambda>c. \<not> is_upper c \<and> \<not> is_lower c) e"
  shows "eq_ignore_ascii_case t e \<longleftrightarrow> t = e"
proof
  assume "eq_ignore_ascii_case t e"
  then have "map lower_char t = e"
    using assms by (simp add: eq_ignore_ascii_case_def to_ascii_lowercase_def list_all_iff
        lower_char_not_upper map_idI)
  moreover have "lower_char c = c" if "c \<in> set t" for c
  proof (rule ccontr)
    assume "lower_char c \<noteq> c"
    then have "is_upper c" using lower_char_not_upper by blast
    then have "is_lower (lower_char c)" by (simp add: is_lower_def byte_lower_char is_upper_def)
    moreover have "lower_char c \<in> set e" using that \<open>map lower_char t = e\<close> by auto
    ultimately show False using assms by (simp add: list_all_iff)
  qed
  ultimately show "t = e" by (simp add: map_idI)
qed simp

lemma eq_ignore_case_amp [simp]: "eq_ignore_ascii_case t ''&'' \<longleftrightarrow> t = ''&''"
  by (rule eq_ignore_case_symbol) (simp add: is_upper_def is_lower_def byte_def)

lemma parse_operator_not_amp: "parse_operator ''&'' \<noteq> Inr oper"
  by (simp add: parse_operator_def)

lemma parse_mask_Inr_iff:
  "parse_mask p = Inr (m, p') \<longleftrightarrow>
     ((\<forall>us. rest p \<noteq> ''&'' # us) \<and> m = None \<and> p' = p) \<or>
     (\<exists>t us mv. rest p = ''&'' # t # us \<and> parse_value t = Inr mv \<and> m = Some mv \<and> p' = skip 2 p)"
proof (cases "rest p")
  case (Cons t us)
  show ?thesis
  proof (cases "t = ''&''")
    case True
    with Cons rest_skip1 [OF Cons] show ?thesis
      by (cases us) (auto simp: parse_mask_def consume_rest parser_next_rest res_simps numeral_2_eq_2)
  qed (use Cons in \<open>auto simp: parse_mask_def consume_rest\<close>)
qed (auto simp: parse_mask_def consume_rest)

lemma parse_predicate_sound:
  assumes "parse_predicate a p = Inr (q, p')"
  shows "\<exists>ts us. rest p = ts @ us \<and> pred_lang a q ts \<and> p' = skip (length ts) p"
proof -
  from assms obtain r p1 reg m p2 t p3 oper v p4 val where
    n1: "parser_next p = Some (r, p1)" and reg: "parse_reg a r = Inr reg"
    and m: "parse_mask p1 = Inr (m, p2)" and n2: "parser_next p2 = Some (t, p3)"
    and oper: "parse_operator t = Inr oper" and n3: "parser_next p3 = Some (v, p4)"
    and val: "parse_value v = Inr val"
    and q: "q = \<lparr>p_reg = reg, p_mask = m, p_op = oper, p_value = val\<rparr>" "p' = p4"
    by (auto simp: parse_predicate_def res_simps)
  from n1 obtain us where r: "rest p = r # us" and p1: "p1 = skip 1 p"
    by (auto simp: parser_next_rest split: list.splits)
  then have us: "rest p1 = us" using rest_skip1 by simp
  from n2 n3 obtain ws where tv: "rest p2 = t # v # ws" and p4: "p4 = skip 2 p2"
    using rest_skip1 by (auto simp: parser_next_rest split: list.splits)
  from m [unfolded parse_mask_Inr_iff] show ?thesis
  proof (elim disjE exE conjE)
    assume "m = None" and "p2 = p1"
    then have "pred_lang a q [r, t, v]" and "rest p = [r, t, v] @ ws" and "p' = skip 3 p"
      using reg oper val q r us tv p1 p4 by (auto intro: pred_lang.plain)
    then show ?thesis by (intro exI [of _ "[r, t, v]"] exI [of _ ws]) simp
  next
    fix u zs mv
    assume u: "rest p1 = ''&'' # u # zs" "parse_value u = Inr mv" "m = Some mv" "p2 = skip 2 p1"
    then have "rest p2 = zs" using rest_skip [of p1 "[''&'', u]" zs] by (simp add: numeral_2_eq_2)
    then have "pred_lang a q [r, ''&'', u, t, v]" and "rest p = [r, ''&'', u, t, v] @ ws"
      and "p' = skip 5 p"
      using reg oper val q r us tv p1 p4 u by (auto intro: pred_lang.masked)
    then show ?thesis by (intro exI [of _ "[r, ''&'', u, t, v]"] exI [of _ ws]) simp
  qed
qed

lemma parse_predicate_complete:
  assumes "pred_lang a q ts" and "rest p = ts @ us"
  shows "parse_predicate a p = Inr (q, skip (length ts) p)"
  using assms(1)
proof cases
  case (plain r t v)
  then have r: "rest p = r # t # v # us" using assms(2) by simp
  note r1 = rest_skip1 [OF r]
  note r2 = rest_skip1 [OF r1]
  have "t \<noteq> ''&''" using plain(4) parse_operator_not_amp by metis
  then have m: "parse_mask (skip 1 p) = Inr (None, skip 1 p)"
    using r1 by (simp add: parse_mask_Inr_iff)
  show ?thesis
    using plain r r1 r2 m by (simp add: parse_predicate_def parser_next_rest numeral_3_eq_3)
next
  case (masked r m mv t v)
  then have r: "rest p = r # ''&'' # m # t # v # us" using assms(2) by simp
  note r1 = rest_skip1 [OF r]
  note r2 = rest_skip1 [OF r1]
  note r3 = rest_skip1 [OF r2]
  note r4 = rest_skip1 [OF r3]
  have m: "parse_mask (skip 1 p) = Inr (Some mv, skip 3 p)"
    using r1 masked(3) by (simp add: parse_mask_Inr_iff numeral_3_eq_3)
  show ?thesis
    using masked r r3 r4 m by (simp add: parse_predicate_def parser_next_rest numeral_3_eq_3 eval_nat_numeral)
qed

lemma pred_lang_length: "pred_lang a q ts \<Longrightarrow> 3 \<le> length ts"
  by (auto elim: pred_lang.cases)

lemma parse_predicate_progress:
  "parse_predicate a p = Inr (q, p') \<Longrightarrow>
     tokens p' = tokens p \<and> pos p < pos p' \<and> pos p' \<le> length (tokens p)"
proof -
  assume "parse_predicate a p = Inr (q, p')"
  then obtain ts us where r: "rest p = ts @ us" and l: "pred_lang a q ts" and p': "p' = skip (length ts) p"
    using parse_predicate_sound by blast
  have "length ts \<le> length (rest p)" using r by simp
  then show ?thesis using pred_lang_length [OF l] p' by (auto simp: rest_def)
qed

subsection \<open>Groups and filters\<close>

lemma consume_any_rest:
  "consume_any es p =
     (case rest p of
        [] \<Rightarrow> (False, p)
      | t # _ \<Rightarrow> if list_ex (eq_ignore_ascii_case t) es then (True, skip 1 p) else (False, p))"
  by (induction es) (auto simp: consume_rest split: list.splits)

definition and_words :: "str list" where
  "and_words = [''and'', ''&&'']"

definition or_words :: "str list" where
  "or_words = [''or'', ''||'']"

function and_loop :: "arch \<Rightarrow> predicate list \<Rightarrow> parser \<Rightarrow> filter_error + (predicate list \<times> parser)" where
  "and_loop a grp p =
     (case consume_any and_words p of (again, p1) \<Rightarrow>
        if again then
          and_then (parse_predicate a p1) (\<lambda>(q, p2). and_loop a (grp @ [q]) p2)
        else Inr (grp, p1))"
  by pat_completeness auto
termination
  by (relation "measure (\<lambda>(a, g, p). length (tokens p) - pos p)")
     (auto simp: consume_any_rest dest!: parse_predicate_progress split: list.splits if_splits)

text \<open>A list of items with a separator word between any two.\<close>

inductive sep_tail :: "('x \<Rightarrow> str list \<Rightarrow> bool) \<Rightarrow> str list \<Rightarrow> 'x list \<Rightarrow> str list \<Rightarrow> bool"
  for L :: "'x \<Rightarrow> str list \<Rightarrow> bool" and seps :: "str list" where
  stop: "sep_tail L seps [] []"
| item: "list_ex (eq_ignore_ascii_case t) seps \<Longrightarrow> L x ts \<Longrightarrow> sep_tail L seps xs us \<Longrightarrow>
     sep_tail L seps (x # xs) (t # ts @ us)"

inductive sep_lang :: "('x \<Rightarrow> str list \<Rightarrow> bool) \<Rightarrow> str list \<Rightarrow> 'x list \<Rightarrow> str list \<Rightarrow> bool"
  for L :: "'x \<Rightarrow> str list \<Rightarrow> bool" and seps :: "str list" where
  start: "L x ts \<Longrightarrow> sep_tail L seps xs us \<Longrightarrow> sep_lang L seps (x # xs) (ts @ us)"

inductive_simps sep_tail_Nil [simp]: "sep_tail L seps [] ts"
inductive_cases sep_tail_ConsE: "sep_tail L seps (x # xs) ts"
inductive_cases sep_langE: "sep_lang L seps xs ts"

text \<open>
  The contract of an item parser and the loop that collects items: the item parser accepts
  exactly its language where it is followed by what may follow an item, and the loop takes
  another item as long as it can consume a separator.
\<close>

definition no_word :: "str list \<Rightarrow> str list \<Rightarrow> bool" where
  "no_word seps us \<longleftrightarrow> (case us of [] \<Rightarrow> True | t # _ \<Rightarrow> \<not> list_ex (eq_ignore_ascii_case t) seps)"

lemma consume_any_no_word: "no_word seps (rest p) \<Longrightarrow> consume_any seps p = (False, p)"
  by (cases "rest p") (simp_all add: consume_any_rest no_word_def)

lemma consume_any_word:
  "rest p = t # us \<Longrightarrow> list_ex (eq_ignore_ascii_case t) seps \<Longrightarrow> consume_any seps p = (True, skip 1 p)"
  by (simp add: consume_any_rest)

locale separated =
  fixes parse_item :: "parser \<Rightarrow> filter_error + ('x \<times> parser)"
    and lang :: "'x \<Rightarrow> str list \<Rightarrow> bool"
    and seps :: "str list"
    and loop :: "'x list \<Rightarrow> parser \<Rightarrow> filter_error + ('x list \<times> parser)"
    and follow :: "str list \<Rightarrow> bool"
  assumes item_sound: "parse_item p = Inr (x, p') \<Longrightarrow>
      \<exists>ts us. rest p = ts @ us \<and> lang x ts \<and> p' = skip (length ts) p \<and> follow us"
    and item_complete: "lang x ts \<Longrightarrow> rest p = ts @ us \<Longrightarrow> follow us \<Longrightarrow>
      parse_item p = Inr (x, skip (length ts) p)"
    and lang_nonempty: "lang x ts \<Longrightarrow> ts \<noteq> []"
    and follow_sep: "list_ex (eq_ignore_ascii_case t) seps \<Longrightarrow> follow (t # us)"
    and loop_eq: "loop acc p =
      (case consume_any seps p of (again, p1) \<Rightarrow>
         if again then and_then (parse_item p1) (\<lambda>(x, p2). loop (acc @ [x]) p2)
         else Inr (acc, p1))"
begin

lemma loop_sound:
  "follow (rest p) \<Longrightarrow> loop acc p = Inr (ys, p') \<Longrightarrow>
     \<exists>xs ts us. ys = acc @ xs \<and> rest p = ts @ us \<and> sep_tail lang seps xs ts \<and>
       p' = skip (length ts) p \<and> follow us \<and> no_word seps us"
proof (induction "length (rest p)" arbitrary: p acc rule: less_induct)
  case less
  show ?case
  proof (cases "no_word seps (rest p)")
    case True
    then have "consume_any seps p = (False, p)" by (rule consume_any_no_word)
    with less.prems True show ?thesis
      by (intro exI [of _ "[]"] exI [of _ "rest p"]) (simp add: loop_eq [of acc p])
  next
    case False
    then obtain t zs where t: "rest p = t # zs" "list_ex (eq_ignore_ascii_case t) seps"
      by (auto simp: no_word_def split: list.splits)
    then have "consume_any seps p = (True, skip 1 p)" by (rule consume_any_word)
    with less.prems(2) obtain x p2 where x: "parse_item (skip 1 p) = Inr (x, p2)"
      and l: "loop (acc @ [x]) p2 = Inr (ys, p')"
      by (auto simp: loop_eq [of acc p] res_simps)
    from item_sound [OF x] rest_skip1 [OF t(1)] obtain ts ws where
      i: "zs = ts @ ws" "lang x ts" "p2 = skip (length ts) (skip 1 p)" "follow ws" by auto
    then have r2: "rest p2 = ws" using rest_skip1 [OF t(1)] rest_skip [of "skip 1 p" ts ws] by simp
    then have "length (rest p2) < length (rest p)" using t(1) i(1) by simp
    from less.hyps [OF this _ l] i(4) r2 obtain xs us vs where
      h: "ys = acc @ x # xs" "ws = us @ vs" "sep_tail lang seps xs us"
        "p' = skip (length us) p2" "follow vs" "no_word seps vs" by auto
    have "sep_tail lang seps (x # xs) (t # ts @ us)"
      using t(2) i(2) h(3) by (rule sep_tail.item)
    then show ?thesis
      using h i t by (intro exI [of _ "x # xs"] exI [of _ "t # ts @ us"] exI [of _ vs]) (simp add: add.assoc)
  qed
qed

lemma loop_complete:
  "sep_tail lang seps xs ts \<Longrightarrow> rest p = ts @ us \<Longrightarrow> follow us \<Longrightarrow> no_word seps us \<Longrightarrow>
     loop acc p = Inr (acc @ xs, skip (length ts) p)"
proof (induction arbitrary: acc p rule: sep_tail.induct)
  case stop
  then have "consume_any seps p = (False, p)" by (simp add: consume_any_no_word)
  then show ?case by (simp add: loop_eq [of acc p])
next
  case (item t x ts xs vs)
  then have r: "rest p = t # ts @ vs @ us" by simp
  have c: "consume_any seps p = (True, skip 1 p)"
    using r item.hyps(1) by (rule consume_any_word)
  have "follow (vs @ us)"
    using item.hyps(3) item.prems(2) follow_sep by cases auto
  then have "parse_item (skip 1 p) = Inr (x, skip (length ts) (skip 1 p))"
    using item_complete [OF item.hyps(2), of "skip 1 p"] rest_skip1 [OF r] by simp
  moreover have "rest (skip (length ts) (skip 1 p)) = vs @ us"
    using rest_skip1 [OF r] rest_skip [of "skip 1 p" ts "vs @ us"] by simp
  note item.IH [OF this item.prems(2,3), of "acc @ [x]"]
  ultimately show ?case using c by (simp add: loop_eq [of acc p] add.assoc)
qed

lemma seq_iff:
  "and_then (parse_item p) (\<lambda>(x, p1). loop [x] p1) = Inr (xs, p') \<longleftrightarrow>
     (\<exists>ts us. rest p = ts @ us \<and> sep_lang lang seps xs ts \<and> p' = skip (length ts) p \<and>
       follow us \<and> no_word seps us)" (is "?l \<longleftrightarrow> ?r")
proof
  assume ?l
  then obtain x p1 where x: "parse_item p = Inr (x, p1)" and l: "loop [x] p1 = Inr (xs, p')"
    by (auto simp: res_simps)
  from item_sound [OF x] obtain ts us where
    i: "rest p = ts @ us" "lang x ts" "p1 = skip (length ts) p" "follow us" by blast
  then have "rest p1 = us" using rest_skip by blast
  with loop_sound [OF _ l] i(4) obtain ys vs ws where
    h: "xs = x # ys" "us = vs @ ws" "sep_tail lang seps ys vs" "p' = skip (length vs) p1"
      "follow ws" "no_word seps ws" by auto
  have "sep_lang lang seps xs (ts @ vs)" unfolding h(1) using i(2) h(3) by (rule sep_lang.start)
  then show ?r using i h by (intro exI [of _ "ts @ vs"] exI [of _ ws]) simp
next
  assume ?r
  then obtain ts us where r: "rest p = ts @ us" "sep_lang lang seps xs ts"
    "p' = skip (length ts) p" "follow us" "no_word seps us" by blast
  from r(2) obtain x t1 ys t2 where s: "xs = x # ys" "ts = t1 @ t2" "lang x t1"
    "sep_tail lang seps ys t2" by (auto elim: sep_langE)
  have "follow (t2 @ us)" using s(4) r(4) follow_sep by cases auto
  then have "parse_item p = Inr (x, skip (length t1) p)"
    using item_complete [OF s(3)] r(1) s(2) by simp
  moreover have "rest (skip (length t1) p) = t2 @ us" using rest_skip r(1) s(2) by simp
  note loop_complete [OF s(4) this r(4,5), of "[x]"]
  ultimately show ?l using r(3) s(1,2) by simp
qed

lemma seq_nonempty: "sep_lang lang seps xs ts \<Longrightarrow> xs \<noteq> [] \<and> ts \<noteq> []"
  using lang_nonempty by (auto elim: sep_langE)

end

subsection \<open>parse\_and\_group and parse\_filter\<close>

declare and_loop.simps [simp del]

definition parse_and_group :: "arch \<Rightarrow> parser \<Rightarrow> filter_error + (predicate list \<times> parser)" where
  "parse_and_group a p = and_then (parse_predicate a p) (\<lambda>(q, p1). and_loop a [q] p1)"

abbreviation group_lang :: "arch \<Rightarrow> predicate list \<Rightarrow> str list \<Rightarrow> bool" where
  "group_lang a \<equiv> sep_lang (pred_lang a) and_words"

interpretation grp: separated "parse_predicate a" "pred_lang a" and_words "and_loop a" "\<lambda>_. True"
  for a :: arch
  by unfold_locales
     (auto simp: parse_predicate_complete and_loop.simps dest: parse_predicate_sound pred_lang_length)

lemma parse_and_group_iff:
  "parse_and_group a p = Inr (g, p') \<longleftrightarrow>
     (\<exists>ts us. rest p = ts @ us \<and> group_lang a g ts \<and> p' = skip (length ts) p \<and> no_word and_words us)"
  using grp.seq_iff [of a p g p'] by (simp add: parse_and_group_def)

lemma parse_and_group_progress:
  "parse_and_group a p = Inr (g, p') \<Longrightarrow>
     tokens p' = tokens p \<and> pos p < pos p' \<and> pos p' \<le> length (tokens p)"
proof -
  assume "parse_and_group a p = Inr (g, p')"
  then obtain ts us where r: "rest p = ts @ us" and l: "group_lang a g ts" and p': "p' = skip (length ts) p"
    by (auto simp: parse_and_group_iff)
  have "0 < length ts" and "length ts \<le> length (tokens p) - pos p"
    using grp.seq_nonempty [OF l] r by (auto simp flip: length_drop rest_def)
  then have "0 < length ts \<and> pos p + length ts \<le> length (tokens p)" by linarith
  then show ?thesis using p' by simp
qed

function or_loop :: "arch \<Rightarrow> predicate list list \<Rightarrow> parser \<Rightarrow> filter_error + (predicate list list \<times> parser)" where
  "or_loop a gs p =
     (case consume_any or_words p of (again, p1) \<Rightarrow>
        if again then
          and_then (parse_and_group a p1) (\<lambda>(g, p2). or_loop a (gs @ [g]) p2)
        else Inr (gs, p1))"
  by pat_completeness auto
termination
  by (relation "measure (\<lambda>(a, g, p). length (tokens p) - pos p)")
     (auto simp: consume_any_rest dest!: parse_and_group_progress split: list.splits if_splits)

declare or_loop.simps [simp del]

definition parse_filter :: "arch \<Rightarrow> parser \<Rightarrow> filter_error + (predicate list list \<times> parser)" where
  "parse_filter a p = and_then (parse_and_group a p) (\<lambda>(g, p1). or_loop a [g] p1)"

text \<open>\<open>RegFilter::parse\<close>.\<close>

definition parse :: "arch \<Rightarrow> str \<Rightarrow> filter_error + reg_filter" where
  "parse a input =
     and_then (tokenize input) (\<lambda>ts.
       if ts = [] then Inl EmptyFilter
       else and_then (parse_filter a \<lparr>tokens = ts, pos = 0\<rparr>) (\<lambda>(gs, p).
         if pos p \<noteq> length (tokens p) then Inl (UnexpectedToken (tokens p ! pos p))
         else Inr \<lparr>groups = gs\<rparr>))"

abbreviation filter_lang :: "arch \<Rightarrow> predicate list list \<Rightarrow> str list \<Rightarrow> bool" where
  "filter_lang a \<equiv> sep_lang (group_lang a) or_words"

lemma or_word_not_and: "list_ex (eq_ignore_ascii_case t) or_words \<Longrightarrow> no_word and_words (t # us)"
  by (auto simp: or_words_def and_words_def no_word_def eq_ignore_ascii_case_def
      to_ascii_lowercase_def lower_char_def is_upper_def byte_def)

interpretation flt: separated "parse_and_group a" "group_lang a" or_words "or_loop a" "no_word and_words"
  for a :: arch
  by unfold_locales
     (auto simp: parse_and_group_iff or_loop.simps or_word_not_and dest: grp.seq_nonempty)

lemma parse_filter_iff:
  "parse_filter a p = Inr (gs, p') \<longleftrightarrow>
     (\<exists>ts us. rest p = ts @ us \<and> filter_lang a gs ts \<and> p' = skip (length ts) p \<and>
       no_word and_words us \<and> no_word or_words us)"
  using flt.seq_iff [of a p gs p'] by (simp add: parse_filter_def)

subsection \<open>What parse accepts\<close>

lemma parse_Inr_iff:
  "parse a input = Inr f \<longleftrightarrow> (\<exists>ts. tokenize input = Inr ts \<and> filter_lang a (groups f) ts)"
proof
  assume "parse a input = Inr f"
  then obtain ts gs p where ts: "tokenize input = Inr ts"
    and pf: "parse_filter a \<lparr>tokens = ts, pos = 0\<rparr> = Inr (gs, p)"
    and p: "pos p = length (tokens p)" and f: "f = \<lparr>groups = gs\<rparr>"
    unfolding parse_def and_then_Inr_iff by (auto simp: and_then_Inr_iff split: if_splits)
  from pf [unfolded parse_filter_iff] obtain us vs where
    r: "rest \<lparr>tokens = ts, pos = 0\<rparr> = us @ vs" and l: "filter_lang a gs us"
    and p': "p = skip (length us) \<lparr>tokens = ts, pos = 0\<rparr>"
    by blast
  have "us = ts" using p r unfolding p' by (simp add: rest_def)
  with ts l f show "\<exists>ts. tokenize input = Inr ts \<and> filter_lang a (groups f) ts" by auto
next
  assume "\<exists>ts. tokenize input = Inr ts \<and> filter_lang a (groups f) ts"
  then obtain ts where ts: "tokenize input = Inr ts" and l: "filter_lang a (groups f) ts" by blast
  then have "parse_filter a \<lparr>tokens = ts, pos = 0\<rparr> =
      Inr (groups f, skip (length ts) \<lparr>tokens = ts, pos = 0\<rparr>)"
    unfolding parse_filter_iff
    by (intro exI [of _ ts] exI [of _ "[]"]) (simp add: rest_def no_word_def)
  moreover have "ts \<noteq> []" using flt.seq_nonempty [OF l] by blast
  ultimately show "parse a input = Inr f" using ts by (simp add: parse_def)
qed

lemma find_Some_upt: "find P [0..<n] = Some i \<Longrightarrow> i < n \<and> P i"
  by (auto simp: find_Some_iff)

lemma parse_reg_iff:
  "parse_reg a name = Inr i \<longleftrightarrow> i < regs_count a \<and> eq_ignore_ascii_case (id_to_str a i) name"
    (is "_ \<longleftrightarrow> ?r i")
proof
  assume "parse_reg a name = Inr i"
  then show "?r i" by (auto simp: parse_reg_def res_simps dest: find_Some_upt)
next
  assume r: "?r i"
  have uniq: "j = i" if "?r j" for j
  proof -
    have "id_to_str a j = id_to_str a i"
      using r that by (metis eq_ignore_ascii_case_def id_to_str_word reg_word_lower)
    then show ?thesis using r that id_to_str_inject by blast
  qed
  obtain j where "find (\<lambda>i. eq_ignore_ascii_case (id_to_str a i) name) [0..<regs_count a] = Some j"
    using r by (metis atLeast_upt find_None_iff2 lessThan_iff not_None_eq)
  moreover from this uniq [of j] have "j = i" by (auto dest: find_Some_upt)
  ultimately show "parse_reg a name = Inr i" by (simp add: parse_reg_def)
qed

subsection \<open>Well-formed filters\<close>

definition wf_pred :: "arch \<Rightarrow> predicate \<Rightarrow> bool" where
  "wf_pred a q \<longleftrightarrow> p_reg q < regs_count a"

definition wf_filter :: "arch \<Rightarrow> reg_filter \<Rightarrow> bool" where
  "wf_filter a f \<longleftrightarrow> groups f \<noteq> [] \<and> list_all (\<lambda>g. g \<noteq> [] \<and> list_all (wf_pred a) g) (groups f)"

lemma sep_tail_items: "sep_tail L seps xs ts \<Longrightarrow> x \<in> set xs \<Longrightarrow> \<exists>us. L x us"
  by (induction rule: sep_tail.induct) auto

lemma sep_lang_items: "sep_lang L seps xs ts \<Longrightarrow> x \<in> set xs \<Longrightarrow> \<exists>us. L x us"
  by (auto elim!: sep_langE dest: sep_tail_items)

lemma pred_lang_wf: "pred_lang a q ts \<Longrightarrow> wf_pred a q"
  by (auto simp: wf_pred_def parse_reg_iff elim!: pred_lang.cases)

lemma group_lang_wf: "group_lang a g ts \<Longrightarrow> g \<noteq> [] \<and> list_all (wf_pred a) g"
  using grp.seq_nonempty by (auto simp: list_all_iff dest!: sep_lang_items intro: pred_lang_wf)

lemma filter_lang_wf:
  assumes "filter_lang a (groups f) ts"
  shows "wf_filter a f"
proof -
  have "groups f \<noteq> []" using flt.seq_nonempty [OF assms] by blast
  moreover have "g \<noteq> [] \<and> list_all (wf_pred a) g" if "g \<in> set (groups f)" for g
    using sep_lang_items [OF assms that] group_lang_wf by blast
  ultimately show ?thesis by (simp add: wf_filter_def list_all_iff)
qed

text \<open>On a sample that has every register, a well-formed predicate reads one.\<close>

lemma pred_matches_wf:
  "wf_pred a q \<Longrightarrow> length (sd_regs d) = regs_count a \<Longrightarrow>
     pred_matches d q = compare_op (p_op q)
       (case p_mask q of None \<Rightarrow> sd_regs d ! p_reg q | Some m \<Rightarrow> and (sd_regs d ! p_reg q) m) (p_value q)"
  by (simp add: pred_matches_def get_def wf_pred_def)

subsection \<open>Printing a filter\<close>

fun show_op :: "operator \<Rightarrow> str" where
  "show_op Eq = ''==''"
| "show_op Ne = ''!=''"
| "show_op Gt = ''>''"
| "show_op Ge = ''>=''"
| "show_op Lt = ''<''"
| "show_op Le = ''<=''"

definition pred_tokens :: "arch \<Rightarrow> predicate \<Rightarrow> str list" where
  "pred_tokens a q =
     [id_to_str a (p_reg q)] @ (case p_mask q of None \<Rightarrow> [] | Some m \<Rightarrow> [''&'', hexn m])
     @ [show_op (p_op q), hexn (p_value q)]"

definition group_tokens :: "arch \<Rightarrow> predicate list \<Rightarrow> str list" where
  "group_tokens a g = join [''and''] (map (pred_tokens a) g)"

definition filter_tokens :: "arch \<Rightarrow> reg_filter \<Rightarrow> str list" where
  "filter_tokens a f = join [''or''] (map (group_tokens a) (groups f))"

definition show_filter :: "arch \<Rightarrow> reg_filter \<Rightarrow> str" where
  "show_filter a f = join '' '' (filter_tokens a f)"

lemma UNIV_operator: "UNIV = {Eq, Ne, Gt, Ge, Lt, Le}"
  by (auto intro: operator.exhaust)

instantiation operator :: enum
begin

definition enum_operator :: "operator list" where
  "enum_operator = [Eq, Ne, Gt, Ge, Lt, Le]"

definition enum_all_operator :: "(operator \<Rightarrow> bool) \<Rightarrow> bool" where
  "enum_all_operator P \<longleftrightarrow> P Eq \<and> P Ne \<and> P Gt \<and> P Ge \<and> P Lt \<and> P Le"

definition enum_ex_operator :: "(operator \<Rightarrow> bool) \<Rightarrow> bool" where
  "enum_ex_operator P \<longleftrightarrow> P Eq \<or> P Ne \<or> P Gt \<or> P Ge \<or> P Lt \<or> P Le"

instance
  by standard (simp_all add: UNIV_operator enum_operator_def enum_all_operator_def enum_ex_operator_def)

end

lemma operators_all: "\<forall>oper. result_ok (parse_operator (show_op oper)) = Some oper"
  by code_simp

interpretation operators: codec show_op "\<lambda>t. result_ok (parse_operator t)"
  by unfold_locales (simp add: operators_all)

lemma parse_operator_show [simp]: "parse_operator (show_op oper) = Inr oper"
  using operators.dec_enc by (simp add: result_ok_Some_iff)

lemma parse_value_hexn [simp]: "parse_value (hexn v) = Inr v"
  by (simp add: parse_value_def strip_0x_def hexn_def strip_prefix_def)

lemma pred_tokens_lang: "wf_pred a q \<Longrightarrow> pred_lang a q (pred_tokens a q)"
  by (cases "p_mask q")
     (auto simp: pred_tokens_def wf_pred_def parse_reg_iff intro: pred_lang.intros)

lemma sep_tail_join:
  "list_ex (eq_ignore_ascii_case w) seps \<Longrightarrow> \<forall>x \<in> set xs. L x (f x) \<Longrightarrow>
     sep_tail L seps xs (concat (map (\<lambda>x. w # f x) xs))"
  by (induction xs) (auto intro: sep_tail.intros simp flip: append_assoc)

lemma join_Cons_concat: "join [w] (y # ys) = y @ concat (map (\<lambda>y. w # y) ys)"
  by (induction ys arbitrary: y) simp_all

lemma sep_lang_join:
  assumes "list_ex (eq_ignore_ascii_case w) seps" and "\<forall>x \<in> set xs. L x (f x)" and "xs \<noteq> []"
  shows "sep_lang L seps xs (join [w] (map f xs))"
proof -
  obtain x ys where xs: "xs = x # ys" using assms(3) by (cases xs) auto
  have "sep_tail L seps ys (concat (map (\<lambda>x. w # f x) ys))"
    using assms xs by (intro sep_tail_join) auto
  then have "sep_lang L seps (x # ys) (f x @ concat (map (\<lambda>x. w # f x) ys))"
    using assms(2) xs by (intro sep_lang.start) auto
  moreover have "join [w] (map f xs) = f x @ concat (map (\<lambda>x. w # f x) ys)"
    by (simp only: xs list.map join_Cons_concat map_map o_def)
  ultimately show ?thesis using xs by simp
qed

lemma filter_tokens_lang: "wf_filter a f \<Longrightarrow> filter_lang a (groups f) (filter_tokens a f)"
proof -
  assume wf: "wf_filter a f"
  have "group_lang a g (group_tokens a g)" if "g \<in> set (groups f)" for g
    using wf that unfolding group_tokens_def
    by (intro sep_lang_join) (auto simp: wf_filter_def list_all_iff and_words_def intro: pred_tokens_lang)
  then show ?thesis
    using wf unfolding filter_tokens_def
    by (intro sep_lang_join) (auto simp: wf_filter_def or_words_def)
qed

subsection \<open>Tokenizing what was printed\<close>

definition op_tokens :: "str list" where
  "op_tokens = [''='', ''=='', ''!'', ''!='', ''>'', ''>='', ''<'', ''<='', ''&'', ''&&'', ''|'', ''||'']"

definition good_token :: "str \<Rightarrow> bool" where
  "good_token t \<longleftrightarrow> (t \<noteq> [] \<and> list_all is_word t) \<or> t \<in> set op_tokens"

lemma is_word_ws [simp]: "is_word c \<Longrightarrow> ws_width (c # s) = 0"
  by (auto simp: is_word_def byte_def)

lemma is_word_not_op: "is_word c \<Longrightarrow> \<not> op_start c"
  by (auto simp: is_word_def op_start_def class_defs byte_def)

lemma op_start_ws [simp]: "op_start c \<Longrightarrow> ws_width (c # s) = 0"
  by (auto simp: op_start_def byte_def)

lemma space_not_word [simp]: "\<not> is_word (CHR '' '')"
  by (simp add: is_word_def class_defs byte_def)

lemma ws_width_space [simp]: "ws_width (CHR '' '' # s) = 1"
  by (rule ws_width_ascii) (simp add: byte_def)

lemma tokenize_Nil [simp]: "tokenize [] = Inr []"
  by (simp add: tokenize.simps)

lemma tokenize_space [simp]: "tokenize (CHR '' '' # s) = tokenize s"
  by (simp add: tokenize.simps [of "CHR '' '' # s"])

lemma tokenize_op:
  "op_start c \<Longrightarrow> tokenize (c # r) =
     (if continues_operator c r then and_then (tokenize (tl r)) (\<lambda>ts. Inr ([c, hd r] # ts))
      else and_then (tokenize r) (\<lambda>ts. Inr ([c] # ts)))"
  by (simp add: tokenize.simps [of "c # r"])

lemma tokenize_ws: "0 < ws_width s \<Longrightarrow> tokenize s = tokenize (drop (ws_width s) s)"
  by (subst tokenize.simps) (auto split: list.split)

lemma tokenize_word_step:
  "is_word c \<Longrightarrow> tokenize (c # r) =
     and_then (tokenize (dropWhile is_word r)) (\<lambda>ts. Inr ((c # takeWhile is_word r) # ts))"
  using is_word_not_op [of c] by (simp add: tokenize.simps [of "c # r"])

lemma tokenize_bad:
  "ws_width (c # r) = 0 \<Longrightarrow> \<not> op_start c \<Longrightarrow> \<not> is_word c \<Longrightarrow>
     tokenize (c # r) = Inl (UnexpectedChar (first_char (c # r)))"
  by (simp add: tokenize.simps [of "c # r"])

lemma tokenize_word:
  assumes "list_all is_word w" and "w \<noteq> []" and "r = [] \<or> \<not> is_word (hd r)"
  shows "tokenize (w @ r) = and_then (tokenize r) (\<lambda>ts. Inr (w # ts))"
proof -
  obtain c v where w: "w = c # v" using assms(2) by (cases w) auto
  have "takeWhile is_word (v @ r) = v" and "dropWhile is_word (v @ r) = r"
    using assms w by (cases r; simp add: list_all_iff takeWhile_append2 dropWhile_append2)+
  then show ?thesis
    using assms(1) w by (simp add: tokenize_word_step)
qed

lemma tokenize_good:
  assumes "good_token t" and "r = [] \<or> hd r = CHR '' ''"
  shows "tokenize (t @ r) = and_then (tokenize r) (\<lambda>ts. Inr (t # ts))"
proof (cases "t \<in> set op_tokens")
  case True
  then show ?thesis
    using assms(2) by (auto simp: op_tokens_def tokenize_op op_start_def continues_operator_def)
next
  case False
  with assms show ?thesis by (intro tokenize_word) (auto simp: good_token_def)
qed

lemma tokenize_join: "list_all good_token ts \<Longrightarrow> tokenize (join '' '' ts) = Inr ts"
proof (induction "'' ''" ts rule: join.induct)
  case (2 t)
  then show ?case using tokenize_good [of t "[]"] by simp
next
  case (3 t u ts)
  then show ?case using tokenize_good [of t "CHR '' '' # join '' '' (u # ts)"] by simp
qed simp

lemma join_all: "list_all P sep \<Longrightarrow> \<forall>x \<in> set xs. list_all P x \<Longrightarrow> list_all P (join sep xs)"
  by (induction sep xs rule: join.induct) auto

lemma good_token_words: "good_token ''and''" "good_token ''or''"
  by (simp_all add: good_token_def is_word_def class_defs byte_def)

lemma good_token_hexn: "good_token (hexn v)"
proof -
  have "list_all is_word (show_radix 16 (unat v))"
    using show_radix_alnum [of 16 "unat v"] by (simp add: list_all_iff is_word_def)
  then show ?thesis
    by (simp add: good_token_def hexn_def is_word_def class_defs byte_def)
qed

lemma good_token_reg: "i < regs_count a \<Longrightarrow> good_token (id_to_str a i)"
  using id_to_str_word [of i a] reg_word_alnum [of "id_to_str a i"]
  by (auto simp: good_token_def reg_word_def list_all_iff is_word_def)

lemma good_token_ops: "(\<forall>oper. good_token (show_op oper)) \<and> good_token ''&''"
  by code_simp

lemmas good_token_op = good_token_ops [THEN conjunct1, rule_format] good_token_ops [THEN conjunct2]

lemma filter_tokens_good: "wf_filter a f \<Longrightarrow> list_all good_token (filter_tokens a f)"
proof -
  assume wf: "wf_filter a f"
  have pred: "list_all good_token (pred_tokens a q)" if "wf_pred a q" for q
    using that by (auto simp: pred_tokens_def wf_pred_def good_token_reg good_token_op good_token_hexn
        split: option.splits)
  then have "list_all good_token (group_tokens a g)" if "list_all (wf_pred a) g" for g
    using that unfolding group_tokens_def
    by (intro join_all) (auto simp: good_token_words list_all_iff)
  then show ?thesis
    using wf unfolding filter_tokens_def
    by (intro join_all) (auto simp: good_token_words wf_filter_def list_all_iff)
qed

lemma parse_show:
  assumes "wf_filter a f"
  shows "parse a (show_filter a f) = Inr f"
  unfolding parse_Inr_iff show_filter_def
  using tokenize_join [OF filter_tokens_good [OF assms]] filter_tokens_lang [OF assms] by blast

subsection \<open>The tokenizer loses nothing\<close>

function without_ws :: "str \<Rightarrow> str" where
  "without_ws s =
     (case s of
        [] \<Rightarrow> []
      | c # r \<Rightarrow> if 0 < ws_width s then without_ws (drop (ws_width s) s) else c # without_ws r)"
  by pat_completeness auto
termination
  by (relation "measure length") auto

declare without_ws.simps [simp del]

lemma without_ws_Nil [simp]: "without_ws [] = []"
  by (simp add: without_ws.simps)

lemma without_ws_Cons: "ws_width (c # s) = 0 \<Longrightarrow> without_ws (c # s) = c # without_ws s"
  by (simp add: without_ws.simps [of "c # s"])

lemma without_ws_ws: "0 < ws_width s \<Longrightarrow> without_ws s = without_ws (drop (ws_width s) s)"
  by (subst without_ws.simps) (auto split: list.split)

lemma without_ws_word: "list_all is_word w \<Longrightarrow> without_ws (w @ r) = w @ without_ws r"
  by (induction w) (simp_all add: without_ws_Cons)

lemma op_tokens_two: "op_start c \<Longrightarrow> continues_operator c (d # r) \<Longrightarrow> [c, d] \<in> set op_tokens \<and> ws_width (d # r) = 0"
  by (auto simp: continues_operator_def op_start_def op_tokens_def byte_def split: if_splits)

lemma op_tokens_one: "op_start c \<Longrightarrow> [c] \<in> set op_tokens"
  by (auto simp: op_start_def op_tokens_def)

lemma tokenize_sound:
  "tokenize s = Inr ts \<Longrightarrow> list_all good_token ts \<and> concat ts = without_ws s"
proof (induction s arbitrary: ts rule: tokenize.induct)
  case (1 s)
  show ?case
  proof (cases s)
    case Nil
    with "1.prems" show ?thesis by simp
  next
    case (Cons c r)
    consider (ws) "0 < ws_width s" | (op) "ws_width s = 0" "op_start c"
      | (word) "ws_width s = 0" "\<not> op_start c" "is_word c"
      | (bad) "ws_width s = 0" "\<not> op_start c" "\<not> is_word c" by blast
    then show ?thesis
    proof cases
      case ws
      from "1.IH"(1) [OF Cons ws] "1.prems" tokenize_ws [OF ws] without_ws_ws [OF ws]
      show ?thesis by simp
    next
      case op
      show ?thesis
      proof (cases "continues_operator c r")
        case True
        then obtain d u where r: "r = d # u" by (cases r) (auto simp: continues_operator_def split: if_splits)
        from "1.prems" obtain us where "tokenize u = Inr us" "ts = [c, d] # us"
          using Cons op r True by (auto simp: tokenize_op res_simps)
        with "1.IH"(2) [OF Cons _ op(2) True] op Cons r op_tokens_two [of c d u] True show ?thesis
          by (simp add: good_token_def without_ws_Cons)
      next
        case False
        from "1.prems" obtain us where "tokenize r = Inr us" "ts = [c] # us"
          using Cons op False by (auto simp: tokenize_op res_simps)
        with "1.IH"(3) [OF Cons _ op(2) False] op Cons op_tokens_one show ?thesis
          by (simp add: good_token_def without_ws_Cons)
      qed
    next
      case word
      let ?w = "takeWhile is_word r" and ?r = "dropWhile is_word r"
      from "1.prems" obtain us where us: "tokenize ?r = Inr us" "ts = (c # ?w) # us"
        using Cons word by (auto simp: tokenize_word_step res_simps)
      have w: "list_all is_word (c # ?w)"
        using word(3) by (auto simp: list_all_iff dest: set_takeWhileD)
      have "without_ws (c # r) = (c # ?w) @ without_ws ?r"
        using without_ws_word [OF w, of ?r] by (simp only: append_Cons takeWhile_dropWhile_id)
      moreover have "good_token (c # ?w)" using w by (simp add: good_token_def)
      moreover have "list_all good_token us \<and> concat us = without_ws ?r"
        using "1.IH"(4) [OF Cons _ word(2,3) us(1)] word(1) by simp
      ultimately show ?thesis using us(2) Cons by simp
    next
      case bad
      with "1.prems" Cons show ?thesis by (simp add: tokenize_bad)
    qed
  qed
qed

subsection \<open>Properties\<close>

text \<open>
  C14: the parser decides the filter grammar: a text is accepted with result \<open>f\<close> if and only if it is,
  white space aside, a sequence of words and operators that the grammar \<open>filter_lang\<close> derives from
  \<open>f\<close>: alternatives of conjunctions of predicates, with \<open>and\<close> binding tighter than \<open>or\<close>.
\<close>

theorem parser_decides_grammar:
  "parse a input = Inr f \<longleftrightarrow>
     (\<exists>ts. tokenize input = Inr ts \<and> list_all good_token ts \<and> concat ts = without_ws input
        \<and> filter_lang a (groups f) ts)"
  using parse_Inr_iff [of a input f] tokenize_sound [of input] by blast

text \<open>
  C15: printing and parsing: every filter over the registers of the architecture, printed with its
  register names, operators and hexadecimal numbers, parses back to itself.
\<close>

theorem filter_print_parse:
  assumes "groups f \<noteq> []"
    and "list_all (\<lambda>g. g \<noteq> [] \<and> list_all (\<lambda>q. p_reg q < regs_count a) g) (groups f)"
  shows "parse a (show_filter a f) = Inr f"
proof (rule parse_show)
  have "wf_pred a = (\<lambda>q. p_reg q < regs_count a)" by (rule ext) (simp add: wf_pred_def)
  with assms show "wf_filter a f" by (simp add: wf_filter_def)
qed

definition demo_filter :: reg_filter where
  "demo_filter = \<lparr>groups = [[\<lparr>p_reg = 0, p_mask = Some 255, p_op = Eq, p_value = 16\<rparr>],
     [\<lparr>p_reg = 1, p_mask = None, p_op = Lt, p_value = 5\<rparr>, \<lparr>p_reg = 32, p_mask = None, p_op = Ge, p_value = 7\<rparr>]]\<rparr>"

lemma demo_filter_wf: "wf_filter Aarch64 demo_filter"
  by (simp add: demo_filter_def wf_filter_def wf_pred_def)

theorem filter_print_parse_witness: "parse Aarch64 (show_filter Aarch64 demo_filter) = Inr demo_filter"
  by (rule filter_print_parse) (simp_all add: demo_filter_def)

text \<open>
  C16: a parsed filter means what it says: it has an alternative, each with a predicate, naming only
  registers of the architecture; and on a sample with the architecture's registers it holds just
  when all the predicates of some alternative hold of the registers they name, masked if they say
  so, compared as unsigned numbers.
\<close>

theorem parsed_filter_meaning:
  assumes "parse a input = Inr f" and "length (sd_regs d) = regs_count a"
  shows "groups f \<noteq> [] \<and> list_all (\<lambda>g. g \<noteq> [] \<and> list_all (\<lambda>q. p_reg q < regs_count a) g) (groups f)
    \<and> (matches f d \<longleftrightarrow> (\<exists>g \<in> set (groups f). list_all (\<lambda>q.
         let l = unat (case p_mask q of None \<Rightarrow> sd_regs d ! p_reg q | Some m \<Rightarrow> and (sd_regs d ! p_reg q) m);
             v = unat (p_value q)
         in case p_op q of Eq \<Rightarrow> l = v | Ne \<Rightarrow> l \<noteq> v | Gt \<Rightarrow> v < l | Ge \<Rightarrow> v \<le> l | Lt \<Rightarrow> l < v | Le \<Rightarrow> l \<le> v) g))"
proof -
  have wf: "wf_filter a f" using assms(1) filter_lang_wf by (auto simp: parse_Inr_iff)
  let ?sem = "\<lambda>q. let l = unat (case p_mask q of None \<Rightarrow> sd_regs d ! p_reg q | Some m \<Rightarrow> and (sd_regs d ! p_reg q) m);
             v = unat (p_value q)
         in case p_op q of Eq \<Rightarrow> l = v | Ne \<Rightarrow> l \<noteq> v | Gt \<Rightarrow> v < l | Ge \<Rightarrow> v \<le> l | Lt \<Rightarrow> l < v | Le \<Rightarrow> l \<le> v"
  have sem: "pred_matches d q = ?sem q" if "wf_pred a q" for q
    using pred_matches_wf [OF that assms(2)]
    by (cases "p_op q") (simp_all add: Let_def word_unat_eq_iff word_less_nat_alt word_le_nat_alt)
  have "list_all (pred_matches d) g = list_all ?sem g" if "g \<in> set (groups f)" for g
    using wf that sem by (intro list.pred_cong) (auto simp: wf_filter_def list_all_iff)
  then have "matches f d \<longleftrightarrow> (\<exists>g \<in> set (groups f). list_all ?sem g)"
    by (auto simp: matches_def list_ex_iff)
  moreover have "wf_pred a = (\<lambda>q. p_reg q < regs_count a)" by (rule ext) (simp add: wf_pred_def)
  ultimately show ?thesis using wf by (simp add: wf_filter_def)
qed

theorem parsed_filter_meaning_witness:
  "matches demo_filter \<lparr>sd_pid = 1, sd_tid = 1, sd_regs = 0x310 # replicate 32 9, sd_backtrace = None, sd_simd = []\<rparr>"
proof -
  let ?d = "\<lparr>sd_pid = 1, sd_tid = 1, sd_regs = 0x310 # replicate 32 9, sd_backtrace = None, sd_simd = []\<rparr> :: sample_data"
  have "length (sd_regs ?d) = regs_count Aarch64" by simp
  from parsed_filter_meaning [OF parse_show [OF demo_filter_wf] this] show ?thesis
    by (simp add: demo_filter_def Let_def)
qed

end
