(* ===== verification/Watch_Loop.thy ===== *)
theory Watch_Loop
  imports Demo_Kernel Reg_Filter
begin

section \<open>Watching a process (src/watch.rs)\<close>

text \<open>
  Parsing of watchpoint types and addresses, the start of a watch (open the driver, list the
  threads, install one breakpoint per thread) and the polling thread: rounds over all
  breakpoints until it is cancelled or ten rounds in a row have failed, then the removal of
  every breakpoint and the closing of the driver. The threads of a process come from the
  \<open>procfs\<close> crate, which is the parameter \<open>tasks\<close>.
\<close>

subsection \<open>Types, lengths and addresses\<close>

definition parse_len :: "sys_bindings \<Rightarrow> str \<Rightarrow> u32 option" where
  "parse_len sys s =
     (if s = ''1'' then Some (HW_BREAKPOINT_LEN_1 sys)
      else if s = ''2'' then Some (HW_BREAKPOINT_LEN_2 sys)
      else if s = ''4'' then Some (HW_BREAKPOINT_LEN_4 sys)
      else if s = ''8'' then Some (HW_BREAKPOINT_LEN_8 sys)
      else if s = [] then Some (HW_BREAKPOINT_LEN_1 sys)
      else None)"

definition parse_watchpoint_type :: "sys_bindings \<Rightarrow> str \<Rightarrow> (u32 \<times> u32) option" where
  "parse_watchpoint_type sys s =
     (case strip_prefix ''rw'' s of
        Some t \<Rightarrow> map_option (\<lambda>len. (HW_BREAKPOINT_RW sys, len)) (parse_len sys t)
      | None \<Rightarrow>
          (case strip_prefix ''r'' s of
             Some t \<Rightarrow> map_option (\<lambda>len. (HW_BREAKPOINT_R sys, len)) (parse_len sys t)
           | None \<Rightarrow>
               (case strip_prefix ''w'' s of
                  Some t \<Rightarrow> map_option (\<lambda>len. (HW_BREAKPOINT_W sys, len)) (parse_len sys t)
                | None \<Rightarrow>
                    if s = ''x'' then Some (HW_BREAKPOINT_X sys, c_long_size sys) else None)))"

definition parse_addr :: "str \<Rightarrow> u64 option" where
  "parse_addr s =
     result_ok (u64_from_radix 16 (case strip_prefix ''0x'' s of Some t \<Rightarrow> t | None \<Rightarrow> s))"

subsection \<open>Starting a watch\<close>

record watch_config =
  wc_pid :: u32
  wc_thread :: bool
  wc_type_name :: str
  wc_addr_text :: str
  wc_ty :: u32
  wc_addr :: u64
  wc_len :: u64
  wc_backtrace :: bool
  wc_buf_size :: usize
  wc_filter :: "reg_filter option"

record watch_start =
  ws_threads :: "u32 list"

text \<open>What the polling thread owns.\<close>

record watcher =
  wt_fd :: i32
  wt_breakpoints :: "i32 list"
  wt_filter :: "reg_filter option"

datatype watch_error =
    WatchDriver lk_error
  | WatchProcfs str
  | NoThreads u32
  | NoBreakpoints u32

fun watch_error_text :: "watch_error \<Rightarrow> str" where
  "watch_error_text (WatchDriver e) = lk_error_text e"
| "watch_error_text (WatchProcfs e) = e"
| "watch_error_text (NoThreads pid) = ''no threads found for pid '' @ show_nat (unat pid)"
| "watch_error_text (NoBreakpoints pid) =
     ''no LK1337 breakpoints created for pid '' @ show_nat (unat pid)"

definition driver_type :: "sys_bindings \<Rightarrow> u32 \<Rightarrow> i32" where
  "driver_type sys ty =
     (if ty = HW_BREAKPOINT_X sys then BP_EXECUTE
      else if ty = HW_BREAKPOINT_R sys then BP_READ
      else if ty = HW_BREAKPOINT_W sys then BP_WRITE
      else BP_READWRITE)"

definition driver_len :: "i32 \<Rightarrow> u64 \<Rightarrow> i32" where
  "driver_len wtyp len = (if wtyp = BP_EXECUTE then 4 else if len = 0 then 1 else ucast len)"

definition driver_flags :: "bool \<Rightarrow> u32" where
  "driver_flags backtrace = (if backtrace then or BP_F_DETAIL BP_F_BACKTRACE else BP_F_DETAIL)"

definition list_threads ::
  "(i32 \<Rightarrow> 'k \<Rightarrow> (str + (str + i32) list) \<times> 'k) \<Rightarrow> watch_config \<Rightarrow> 'k \<Rightarrow> (watch_error + u32 list) \<times> 'k" where
  "list_threads tasks config k =
     (if wc_thread config then (Inr [wc_pid config], k)
      else case tasks (wc_pid config) k of
          (r, k') \<Rightarrow> (and_then (map_err WatchProcfs r) (\<lambda>ts. Inr (List.map_filter result_ok ts)), k'))"

text \<open>One breakpoint per thread; a failure is logged and its thread left out.\<close>

fun create_all ::
  "'k kernel \<Rightarrow> i32 \<Rightarrow> u64 \<Rightarrow> i32 \<Rightarrow> i32 \<Rightarrow> u32 \<Rightarrow> u32 list \<Rightarrow> 'k \<Rightarrow> i32 list \<times> 'k" where
  "create_all K fd addr wtyp len flags [] k = ([], k)"
| "create_all K fd addr wtyp len flags (tid # tids) k =
     (case driver_create K fd addr wtyp len tid 256 flags k of
        (r, k1) \<Rightarrow>
          (case create_all K fd addr wtyp len flags tids k1 of
             (ids, k2) \<Rightarrow> (case r of Inr bp \<Rightarrow> (bp # ids, k2) | Inl e \<Rightarrow> (ids, k2))))"

definition start_driver_watch ::
  "sys_bindings \<Rightarrow> 'k kernel \<Rightarrow> (i32 \<Rightarrow> 'k \<Rightarrow> (str + (str + i32) list) \<times> 'k) \<Rightarrow> watch_config \<Rightarrow> 'k
    \<Rightarrow> (watch_error + watch_start \<times> watcher) \<times> 'k" where
  "start_driver_watch sys K tasks config k =
     (case driver_open sys K k of
        (Inl e, k1) \<Rightarrow> (Inl (WatchDriver e), k1)
      | (Inr fd, k1) \<Rightarrow>
          let wtyp = driver_type sys (wc_ty config);
              len = driver_len wtyp (wc_len config);
              flags = driver_flags (wc_backtrace config)
          in case list_threads tasks config k1 of
              (Inl e, k2) \<Rightarrow> (Inl e, driver_drop K fd k2)
            | (Inr tids, k2) \<Rightarrow>
                if tids = [] then (Inl (NoThreads (wc_pid config)), driver_drop K fd k2)
                else case create_all K fd (wc_addr config) wtyp len flags tids k2 of
                    (ids, k3) \<Rightarrow>
                      if ids = [] then (Inl (NoBreakpoints (wc_pid config)), driver_drop K fd k3)
                      else (Inr (\<lparr>ws_threads = tids\<rparr>,
                              \<lparr>wt_fd = fd, wt_breakpoints = ids, wt_filter = wc_filter config\<rparr>), k3))"

definition start_watch ::
  "sys_bindings \<Rightarrow> 'k kernel \<Rightarrow> (i32 \<Rightarrow> 'k \<Rightarrow> (str + (str + i32) list) \<times> 'k) \<Rightarrow> watch_config \<Rightarrow> 'k
    \<Rightarrow> (watch_error + watch_start \<times> watcher) \<times> 'k" where
  "start_watch sys K tasks config k = start_driver_watch sys K tasks config k"

subsection \<open>The polling thread\<close>

definition sample_of_hit :: "driver_hit \<Rightarrow> sample_data" where
  "sample_of_hit h =
     (let count = min (unat (dh_bt_count h)) BT_MAX in
      \<lparr>sd_pid = dh_pid h, sd_tid = dh_tid h,
       sd_regs = sn_regs (dh_after h) @ [sn_sp (dh_after h), sn_pc (dh_after h)],
       sd_backtrace = (if 0 < count then Some (take count (dh_backtrace h)) else None),
       sd_simd = sn_vregs (dh_after h)\<rparr>)"

definition wanted :: "watcher \<Rightarrow> sample_data \<Rightarrow> bool" where
  "wanted w d = (case wt_filter w of None \<Rightarrow> True | Some f \<Rightarrow> matches f d)"

text \<open>One round: the samples handed to \<open>on_hit\<close>, in order, and the number of failed polls.\<close>

fun poll_round ::
  "'k kernel \<Rightarrow> u64 \<Rightarrow> watcher \<Rightarrow> i32 list \<Rightarrow> 'k \<Rightarrow> sample_data list \<times> nat \<times> 'k" where
  "poll_round K ptr w [] k = ([], 0, k)"
| "poll_round K ptr w (bp # ids) k =
     (case driver_hits K ptr (wt_fd w) bp k of
        (r, k1) \<Rightarrow>
          (case poll_round K ptr w ids k1 of
             (out, failed, k2) \<Rightarrow>
               (case r of
                  Inr hs \<Rightarrow> (filter (wanted w) (map sample_of_hit hs) @ out, failed, k2)
                | Inl e \<Rightarrow> (out, Suc failed, k2))))"

definition next_errors :: "bool \<Rightarrow> nat \<Rightarrow> nat" where
  "next_errors all_failed c = (if all_failed then c + 1 else 0)"

text \<open>
  The loop, with what the cancel flag reads at each test. It returns whether the loop has been
  left (\<open>None\<close>) or is still running with a count of failed rounds; \<open>cancels\<close> is as long as the
  observation, and a longer observation extends a shorter one.
\<close>

fun watch_loop ::
  "'k kernel \<Rightarrow> u64 \<Rightarrow> watcher \<Rightarrow> bool list \<Rightarrow> nat \<Rightarrow> 'k \<Rightarrow> sample_data list \<times> nat option \<times> 'k" where
  "watch_loop K ptr w [] c k = ([], Some c, k)"
| "watch_loop K ptr w (cancelled # cancels) c k =
     (if cancelled then ([], None, k)
      else case poll_round K ptr w (wt_breakpoints w) k of
          (out, failed, k1) \<Rightarrow>
            let c' = next_errors (failed = length (wt_breakpoints w)) c in
            if 10 \<le> c' then (out, None, k1)
            else (case watch_loop K ptr w cancels c' k1 of
                    (outs, st, k2) \<Rightarrow> (out @ outs, st, k2)))"

fun remove_all :: "'k kernel \<Rightarrow> i32 \<Rightarrow> i32 list \<Rightarrow> 'k \<Rightarrow> 'k" where
  "remove_all K fd [] k = k"
| "remove_all K fd (bp # ids) k = remove_all K fd ids (snd (driver_remove K fd bp k))"

text \<open>The whole thread: the loop, and once it is left the removals and the drop of the driver.\<close>

definition watch_thread ::
  "'k kernel \<Rightarrow> u64 \<Rightarrow> watcher \<Rightarrow> bool list \<Rightarrow> 'k \<Rightarrow> sample_data list \<times> bool \<times> 'k" where
  "watch_thread K ptr w cancels k =
     (case watch_loop K ptr w cancels 0 k of
        (out, Some c, k1) \<Rightarrow> (out, False, k1)
      | (out, None, k1) \<Rightarrow>
          (out, True, driver_drop K (wt_fd w) (remove_all K (wt_fd w) (wt_breakpoints w) k1)))"


subsection \<open>Watchpoint types\<close>

text \<open>The watchpoint types of the documentation, with the kind and the length that reach the driver.\<close>

definition watch_types :: "(str \<times> i32 \<times> i32) list" where
  "watch_types = [
     (''x'', BP_EXECUTE, 4),
     (''r1'', BP_READ, 1), (''r2'', BP_READ, 2), (''r4'', BP_READ, 4), (''r8'', BP_READ, 8),
     (''w1'', BP_WRITE, 1), (''w2'', BP_WRITE, 2), (''w4'', BP_WRITE, 4), (''w8'', BP_WRITE, 8),
     (''rw1'', BP_READWRITE, 1), (''rw2'', BP_READWRITE, 2), (''rw4'', BP_READWRITE, 4), (''rw8'', BP_READWRITE, 8)]"

definition driver_args :: "sys_bindings \<Rightarrow> u32 \<times> u32 \<Rightarrow> i32 \<times> i32" where
  "driver_args sys p = (let wtyp = driver_type sys (fst p) in (wtyp, driver_len wtyp (ucast (snd p))))"

lemma strip_prefix_Cons: "strip_prefix (c # p) s = (case s of [] \<Rightarrow> None | x # t \<Rightarrow> if x = c then strip_prefix p t else None)"
  by (auto simp: strip_prefix_def split: list.splits)

lemma strip_prefix_Nil: "strip_prefix [] s = Some s"
  by (simp add: strip_prefix_def)

lemma driver_type_simps:
  assumes "access_kinds_distinct sys"
  shows "driver_type sys (HW_BREAKPOINT_X sys) = BP_EXECUTE" "driver_type sys (HW_BREAKPOINT_R sys) = BP_READ"
    "driver_type sys (HW_BREAKPOINT_W sys) = BP_WRITE" "driver_type sys (HW_BREAKPOINT_RW sys) = BP_READWRITE"
  using assms by (auto simp: access_kinds_distinct_def driver_type_def)

text \<open>
  C34: apart from a bare \<open>r\<close>, \<open>w\<close> or \<open>rw\<close>, for which the documentation asks for a length, the tool
  accepts exactly the thirteen documented watchpoint types, and each reaches the driver as the access
  kind and the length it names; execution is always 4 bytes.
\<close>

theorem watch_types_exact:
  assumes "access_kinds_distinct sys" and "lengths_literal sys" and "s \<noteq> ''r''" and "s \<noteq> ''w''" and "s \<noteq> ''rw''"
  shows "map_option (driver_args sys) (parse_watchpoint_type sys s) = map_of watch_types s"
proof -
  note d = driver_type_simps [OF assms(1)] and l = assms(2) [unfolded lengths_literal_def]
  note ds = parse_watchpoint_type_def strip_prefix_Cons strip_prefix_Nil driver_args_def Let_def driver_len_def d l
      BP_EXECUTE_def BP_READ_def BP_WRITE_def BP_READWRITE_def
  consider "s = []" | t where "s = ''rw'' @ t" | t where "s = CHR ''r'' # t" "\<And>u. t \<noteq> CHR ''w'' # u"
    | t where "s = CHR ''w'' # t" | c t where "s = c # t" "c \<noteq> CHR ''r''" "c \<noteq> CHR ''w''"
  proof -
    show thesis if "s = [] \<Longrightarrow> thesis" "\<And>t. s = ''rw'' @ t \<Longrightarrow> thesis"
      "\<And>t. s = CHR ''r'' # t \<Longrightarrow> (\<And>u. t \<noteq> CHR ''w'' # u) \<Longrightarrow> thesis" "\<And>t. s = CHR ''w'' # t \<Longrightarrow> thesis"
      "\<And>c t. s = c # t \<Longrightarrow> c \<noteq> CHR ''r'' \<Longrightarrow> c \<noteq> CHR ''w'' \<Longrightarrow> thesis"
      using that by (cases s) auto
  qed
  then show ?thesis
  proof cases
    case 1 then show ?thesis by (simp add: ds watch_types_def)
  next
    case 2 then show ?thesis using assms(5) by (simp add: ds watch_types_def parse_len_def)
  next
    case 3 then show ?thesis using assms(3) by (auto simp: ds watch_types_def parse_len_def split: list.splits)
  next
    case 4 then show ?thesis using assms(4) by (simp add: ds watch_types_def parse_len_def)
  next
    case 5 then show ?thesis by (simp add: ds watch_types_def)
  qed
qed

theorem watch_types_exact_witness:
  "map_option (driver_args linux) (parse_watchpoint_type linux ''rw4'') = Some (BP_READWRITE, 4)
    \<and> parse_watchpoint_type linux ''rw3'' = None"
  using watch_types_exact [OF linux_access_kinds linux_lengths, of "''rw4''"]
    watch_types_exact [OF linux_access_kinds linux_lengths, of "''rw3''"]
  by (simp add: watch_types_def)

subsection \<open>Breakpoints and descriptors over the life of a watch\<close>

text \<open>
  \<open>bp_laws K bps refused\<close>: \<open>bps k\<close> is the set of breakpoints installed in kernel state \<open>k\<close>, and
  \<open>refused k\<close> the set of those whose removal the driver has ever refused. A successful \<open>Create\<close>
  adds the number it returns, which was free; an \<open>Id\<close> request (the removal) that succeeds removes its
  breakpoint, one that fails leaves it and is remembered; nothing else changes either set.
\<close>

definition bp_laws :: "'k kernel \<Rightarrow> ('k \<Rightarrow> i32 set) \<Rightarrow> ('k \<Rightarrow> i32 set) \<Rightarrow> bool" where
  "bp_laws K bps refused \<longleftrightarrow>
     (\<forall>k r k'. k_socket K k = (r, k') \<longrightarrow> bps k' = bps k \<and> refused k' = refused k) \<and>
     (\<forall>fd k. bps (k_close K fd k) = bps k \<and> refused (k_close K fd k) = refused k) \<and>
     (\<forall>fd n v b k reply k'. k_ioctl K fd n v b k = (reply, k') \<longrightarrow>
        (case v of
           Create _ \<Rightarrow> refused k' = refused k \<and>
             (if sint (io_rc reply) < 0 then bps k' = bps k
              else \<forall>c. io_request reply = Create c \<longrightarrow>
                cr_bp_id c \<notin> bps k \<and> bps k' = insert (cr_bp_id c) (bps k))
         | Id i \<Rightarrow>
             (if sint (io_rc reply) < 0 then bps k' = bps k \<and> refused k' = insert i (refused k)
              else bps k' = bps k - {i} \<and> refused k' = refused k)
         | _ \<Rightarrow> bps k' = bps k \<and> refused k' = refused k))"

lemma bp_laws_socket:
  "bp_laws K bps refused \<Longrightarrow> k_socket K k = (r, k') \<Longrightarrow> bps k' = bps k \<and> refused k' = refused k"
  by (drule bp_laws_def [THEN iffD1, THEN conjunct1, rule_format])

lemma bp_laws_close:
  "bp_laws K bps refused \<Longrightarrow> bps (k_close K fd k) = bps k \<and> refused (k_close K fd k) = refused k"
  unfolding bp_laws_def by simp

lemma bp_laws_ioctl:
  "bp_laws K bps refused \<Longrightarrow> k_ioctl K fd n v b k = (reply, k') \<Longrightarrow>
     (case v of
        Create _ \<Rightarrow> refused k' = refused k \<and>
          (if sint (io_rc reply) < 0 then bps k' = bps k
           else \<forall>c. io_request reply = Create c \<longrightarrow>
             cr_bp_id c \<notin> bps k \<and> bps k' = insert (cr_bp_id c) (bps k))
      | Id i \<Rightarrow>
          (if sint (io_rc reply) < 0 then bps k' = bps k \<and> refused k' = insert i (refused k)
           else bps k' = bps k - {i} \<and> refused k' = refused k)
      | _ \<Rightarrow> bps k' = bps k \<and> refused k' = refused k)"
  by (drule bp_laws_def [THEN iffD1, THEN conjunct2, THEN conjunct2, rule_format])

lemma same_request_create: "same_request (Create c) r \<longleftrightarrow> (\<exists>c'. r = Create c')"
  by (cases r) auto

lemma driver_create_bps:
  assumes "bp_laws K bps refused" and "kernel_sane K"
    and "driver_create K fd a wtyp len tid cap flags k = (r, k')"
  shows "refused k' = refused k
    \<and> (case r of Inl e \<Rightarrow> bps k' = bps k | Inr b \<Rightarrow> b \<notin> bps k \<and> bps k' = insert b (bps k))"
proof -
  let ?v = "Create \<lparr>cr_addr = a, cr_typ = wtyp, cr_len = len, cr_pid = tid, cr_max = cap,
            cr_bp_id = -1, cr_flags = flags\<rparr>"
  obtain reply where io: "k_ioctl K fd 610 ?v No_Buffer k = (reply, k')"
    and r: "r = (if sint (io_rc reply) < 0 then Inl (IoctlFailed 610 (snd (io_error reply)))
      else Inr (case io_request reply of Create c \<Rightarrow> cr_bp_id c | _ \<Rightarrow> -1))"
    using assms(3) by (auto simp: driver_create_def driver_io_def split: prod.splits)
  from kernel_saneD [OF assms(2) io] obtain c where "io_request reply = Create c"
    by (auto simp: same_request_create)
  with bp_laws_ioctl [OF assms(1) io] r show ?thesis by simp
qed

text \<open>
  The effect of asking for the removal of \<open>ids\<close>, the answers ignored: what is still installed of
  them has been refused, and nothing else has changed.
\<close>

definition removal_effect :: "('k \<Rightarrow> i32 set) \<Rightarrow> ('k \<Rightarrow> i32 set) \<Rightarrow> i32 list \<Rightarrow> 'k \<Rightarrow> 'k \<Rightarrow> bool" where
  "removal_effect bps refused ids k k' \<longleftrightarrow>
     bps k - set ids \<subseteq> bps k' \<and> bps k' \<subseteq> bps k \<and> bps k' \<inter> set ids \<subseteq> refused k'
     \<and> refused k \<subseteq> refused k' \<and> refused k' \<subseteq> refused k \<union> set ids"

lemma removal_effect_Nil: "removal_effect bps refused [] k k"
  by (simp add: removal_effect_def)

lemma removal_effect_append:
  "removal_effect bps refused xs k k1 \<Longrightarrow> removal_effect bps refused ys k1 k2 \<Longrightarrow>
     removal_effect bps refused (xs @ ys) k k2"
  unfolding removal_effect_def set_append by blast

lemma removal_effect_cong:
  "removal_effect bps refused ids k k' \<Longrightarrow> bps k1 = bps k \<Longrightarrow> refused k1 = refused k \<Longrightarrow>
     bps k2 = bps k' \<Longrightarrow> refused k2 = refused k' \<Longrightarrow> removal_effect bps refused ids k1 k2"
  by (simp add: removal_effect_def)

lemma driver_remove_bps:
  assumes "bp_laws K bps refused"
  shows "removal_effect bps refused [b] k (snd (driver_remove K fd b k))"
proof -
  obtain reply k' where io: "k_ioctl K fd 611 (Id b) No_Buffer k = (reply, k')" by fastforce
  then have "snd (driver_remove K fd b k) = k'" by (simp add: driver_remove_def driver_io_def)
  with bp_laws_ioctl [OF assms io] show ?thesis
    by (auto simp: removal_effect_def split: if_splits)
qed

lemma driver_hits_bps:
  assumes "bp_laws K bps refused" and "driver_hits K ptr fd b k = (r, k')"
  shows "bps k' = bps k \<and> refused k' = refused k"
proof -
  let ?v = "Hits \<lparr>hq_bp_id = b, hq_flags = 1, hq_buffer = ptr, hq_capacity = 256, hq_count = 0,
            hq_total = 0, hq_dropped = 0, hq_fp = 0\<rparr>"
  obtain reply where io: "k_ioctl K fd 616 ?v (Hit_Buffer (replicate 256 default_hit)) k = (reply, k')"
    using assms(2) by (auto simp: driver_hits_def driver_io_def split: prod.splits)
  from bp_laws_ioctl [OF assms(1) io] show ?thesis by simp
qed

lemma driver_open_bps:
  assumes "bp_laws K bps refused" and "driver_open sys K k = (r, k')"
  shows "bps k' = bps k \<and> refused k' = refused k"
proof -
  obtain s t k1 where s: "k_socket K k = ((s, t), k1)" by (metis prod_cases3 surj_pair)
  obtain reply k2 where io: "k_ioctl K s BOOTSTRAP (Boot \<lparr>bo_magic = MAGIC, bo_fd = -1\<rparr>) No_Buffer k1 = (reply, k2)"
    by fastforce
  from bp_laws_ioctl [OF assms(1) io] have "bps k2 = bps k1 \<and> refused k2 = refused k1" by simp
  with bp_laws_socket [OF assms(1) s] bp_laws_close [OF assms(1), of s k2] assms(2) s io show ?thesis
    by (auto simp: driver_open_def split: if_splits)
qed

lemma driver_create_fds:
  "fd_laws K fds \<Longrightarrow> driver_create K fd a wtyp len tid cap flags k = (r, k') \<Longrightarrow> fds k' = fds k"
  by (auto simp: driver_create_def split: prod.splits dest: driver_io_fds [rotated 2])

lemma driver_hits_fds: "fd_laws K fds \<Longrightarrow> driver_hits K ptr fd b k = (r, k') \<Longrightarrow> fds k' = fds k"
  by (auto simp: driver_hits_def split: prod.splits dest: driver_io_fds [rotated 2])

lemma driver_remove_fds: "fd_laws K fds \<Longrightarrow> fds (snd (driver_remove K fd b k)) = fds k"
  by (auto simp: driver_remove_def split: prod.splits dest: driver_io_fds [rotated 2])

lemma create_all_bps:
  assumes "bp_laws K bps refused" and "kernel_sane K" and "create_all K fd a wtyp len flags tids k = (ids, k')"
  shows "bps k' = bps k \<union> set ids \<and> refused k' = refused k \<and> bps k \<inter> set ids = {} \<and> distinct ids
    \<and> length ids \<le> length tids"
  using assms(3)
proof (induction tids arbitrary: k ids k')
  case (Cons tid tids)
  obtain r k1 where c: "driver_create K fd a wtyp len tid 256 flags k = (r, k1)" by fastforce
  obtain bs k2 where rest: "create_all K fd a wtyp len flags tids k1 = (bs, k2)" by fastforce
  from driver_create_bps [OF assms(1,2) c] Cons.IH [OF rest] Cons.prems c rest
  show ?case by (cases r) auto
qed auto

lemma create_all_fds:
  assumes "fd_laws K fds" and "create_all K fd a wtyp len flags tids k = (ids, k')"
  shows "fds k' = fds k"
  using assms(2)
proof (induction tids arbitrary: k ids k')
  case (Cons tid tids)
  obtain r k1 where c: "driver_create K fd a wtyp len tid 256 flags k = (r, k1)" by fastforce
  obtain bs k2 where rest: "create_all K fd a wtyp len flags tids k1 = (bs, k2)" by fastforce
  from driver_create_fds [OF assms(1) c] Cons.IH [OF rest] Cons.prems c rest
  show ?case by (cases r) auto
qed auto

text \<open>Anything that no poll changes is the same after the loop.\<close>

lemma poll_round_frame:
  assumes "\<And>b k r k'. driver_hits K ptr (wt_fd w) b k = (r, k') \<Longrightarrow> f k' = f k"
  shows "f (snd (snd (poll_round K ptr w ids k))) = f k"
proof (induction ids arbitrary: k)
  case (Cons b ids)
  obtain r k1 where h: "driver_hits K ptr (wt_fd w) b k = (r, k1)" by fastforce
  obtain out n k2 where "poll_round K ptr w ids k1 = (out, n, k2)" by (metis prod_cases3)
  with Cons.IH [of k1] assms [OF h] h show ?case by (cases r) simp_all
qed simp

lemma watch_loop_frame:
  assumes "\<And>b k r k'. driver_hits K ptr (wt_fd w) b k = (r, k') \<Longrightarrow> f k' = f k"
  shows "f (snd (snd (watch_loop K ptr w cancels c k))) = f k"
proof (induction cancels arbitrary: c k)
  case (Cons x cancels)
  obtain out n k1 where p: "poll_round K ptr w (wt_breakpoints w) k = (out, n, k1)" by (metis prod_cases3)
  obtain outs st k2 where
    l: "watch_loop K ptr w cancels (next_errors (n = length (wt_breakpoints w)) c) k1 = (outs, st, k2)"
    by (metis prod_cases3)
  have "f (snd (snd (poll_round K ptr w (wt_breakpoints w) k))) = f k"
    by (rule poll_round_frame) (rule assms)
  then have "f k1 = f k" using p by simp
  moreover have "f k2 = f k1" using Cons.IH [of "next_errors (n = length (wt_breakpoints w)) c" k1] l by simp
  ultimately show ?case using p l by (simp add: Let_def)
qed simp

lemma remove_all_bps:
  assumes "bp_laws K bps refused"
  shows "removal_effect bps refused ids k (remove_all K fd ids k)"
proof (induction ids arbitrary: k)
  case (Cons b ids)
  from removal_effect_append [OF driver_remove_bps [OF assms, of b k fd] Cons.IH] show ?case by simp
qed (simp add: removal_effect_Nil)

lemma remove_all_fds: "fd_laws K fds \<Longrightarrow> fds (remove_all K fd ids k) = fds k"
  by (induction ids arbitrary: k) (auto simp: driver_remove_fds)

lemma watch_thread_left:
  assumes "fd_laws K fds" and "bp_laws K bps refused"
    and "watch_thread K ptr w cancels k = (out, True, k')"
  shows "fds k' = fds k - {wt_fd w} \<and> removal_effect bps refused (wt_breakpoints w) k k'"
proof -
  obtain k1 where l: "watch_loop K ptr w cancels 0 k = (out, None, k1)"
    and k': "k' = driver_drop K (wt_fd w) (remove_all K (wt_fd w) (wt_breakpoints w) k1)"
    using assms(3) by (auto simp: watch_thread_def split: prod.splits option.splits)
  have "f k1 = f k" if "\<And>b k r k'. driver_hits K ptr (wt_fd w) b k = (r, k') \<Longrightarrow> f k' = f k" for f :: "'a \<Rightarrow> i32 set"
  proof -
    have "f (snd (snd (watch_loop K ptr w cancels 0 k))) = f k" by (rule watch_loop_frame) (erule that)
    with l show ?thesis by simp
  qed
  then have k1: "fds k1 = fds k" "bps k1 = bps k" "refused k1 = refused k"
    using driver_hits_fds [OF assms(1)] driver_hits_bps [OF assms(2)] by metis+
  have "fds k' = fds k - {wt_fd w}"
    using k' k1 by (simp add: driver_drop_def fd_laws_close [OF assms(1)] remove_all_fds [OF assms(1)])
  moreover have "removal_effect bps refused (wt_breakpoints w) k k'"
    using removal_effect_cong [OF remove_all_bps [OF assms(2)], of k k1] k' k1 bp_laws_close [OF assms(2)]
    by (simp add: driver_drop_def)
  ultimately show ?thesis by simp
qed


lemma watch_loop_cancelled:
  "True \<in> set cancels \<Longrightarrow> fst (snd (watch_loop K ptr w cancels c k)) = None"
proof (induction cancels arbitrary: c k)
  case (Cons x cancels)
  obtain out n k1 where p: "poll_round K ptr w (wt_breakpoints w) k = (out, n, k1)" by (metis prod_cases3)
  let ?c = "next_errors (n = length (wt_breakpoints w)) c"
  obtain outs st k2 where l: "watch_loop K ptr w cancels ?c k1 = (outs, st, k2)" by (metis prod_cases3)
  show ?case using Cons.IH [of ?c k1] Cons.prems p l by (cases x) (auto simp: Let_def)
qed simp

text \<open>
  A cancelled watch ends: once the cancel flag reads true at a round, the polling thread has
  been left and has cleaned up, whatever the driver answered before.
\<close>

lemma watch_cancelled: "True \<in> set cancels \<Longrightarrow> fst (snd (watch_thread K ptr w cancels k))"
  using watch_loop_cancelled [of cancels K ptr w 0 k]
  by (auto simp: watch_thread_def split: prod.splits option.splits)

definition quiet :: "(i32 \<Rightarrow> 'k \<Rightarrow> 'r \<times> 'k) \<Rightarrow> ('k \<Rightarrow> 'f) \<Rightarrow> bool" where
  "quiet tasks f \<longleftrightarrow> (\<forall>pid k. f (snd (tasks pid k)) = f k)"

lemma list_threads_quiet: "quiet tasks f \<Longrightarrow> list_threads tasks config k = (r, k') \<Longrightarrow> f k' = f k"
  by (auto simp: list_threads_def quiet_def split: if_splits prod.splits) (metis snd_conv)

text \<open>
  A start that fails leaves nothing behind; one that succeeds adds the driver's descriptor and
  the breakpoints of the watcher, at least one and at most one per thread.
\<close>

lemma start_driver_watch_effect:
  assumes "fd_laws K fds" and "bp_laws K bps refused" and "kernel_sane K"
    and "quiet tasks (\<lambda>k. (fds k, bps k, refused k))"
    and "start_driver_watch sys K tasks config k = (r, k')"
  shows "refused k' = refused k \<and> (case r of
      Inl e \<Rightarrow> fds k' = fds k \<and> bps k' = bps k
    | Inr (ws, w) \<Rightarrow> wt_fd w \<notin> fds k \<and> fds k' = insert (wt_fd w) (fds k)
        \<and> bps k \<inter> set (wt_breakpoints w) = {} \<and> bps k' = bps k \<union> set (wt_breakpoints w)
        \<and> distinct (wt_breakpoints w) \<and> wt_breakpoints w \<noteq> []
        \<and> length (wt_breakpoints w) \<le> length (ws_threads ws))"
proof -
  obtain o1 k1 where o: "driver_open sys K k = (o1, k1)" by fastforce
  note fo = driver_open_fds [OF assms(1,3) o] and bo = driver_open_bps [OF assms(2) o]
  note cl = fd_laws_close [OF assms(1)] bp_laws_close [OF assms(2)]
  show ?thesis
  proof (cases o1)
    case (Inl e)
    with o fo bo assms(5) show ?thesis by (auto simp: start_driver_watch_def)
  next
    case (Inr fd)
    obtain t k2 where t: "list_threads tasks config k1 = (t, k2)" by fastforce
    note qt = list_threads_quiet [OF assms(4) t]
    show ?thesis
    proof (cases "\<exists>tids. t = Inr tids \<and> tids \<noteq> []")
      case False
      then have "(\<exists>e. r = Inl e) \<and> k' = driver_drop K fd k2"
        using o Inr t assms(5) by (cases t) (auto simp: start_driver_watch_def Let_def)
      with fo bo cl qt Inr show ?thesis by (auto simp: driver_drop_def)
    next
      case True
      then obtain tids where tids: "t = Inr tids" "tids \<noteq> []" by blast
      let ?wtyp = "driver_type sys (wc_ty config)"
      obtain ids k3 where c: "create_all K fd (wc_addr config) ?wtyp (driver_len ?wtyp (wc_len config))
          (driver_flags (wc_backtrace config)) tids k2 = (ids, k3)" by fastforce
      note cb = create_all_bps [OF assms(2,3) c] and cf = create_all_fds [OF assms(1) c]
      show ?thesis
      proof (cases "ids = []")
        case True
        then have "r = Inl (NoBreakpoints (wc_pid config)) \<and> k' = driver_drop K fd k3"
          using o Inr t tids c assms(5) by (simp add: start_driver_watch_def Let_def)
        with fo bo cl qt cb cf Inr True show ?thesis by (auto simp: driver_drop_def)
      next
        case False
        then have "r = Inr (\<lparr>ws_threads = tids\<rparr>,
            \<lparr>wt_fd = fd, wt_breakpoints = ids, wt_filter = wc_filter config\<rparr>) \<and> k' = k3"
          using o Inr t tids c assms(5) by (simp add: start_driver_watch_def Let_def)
        with fo bo qt cb cf Inr False show ?thesis by simp
      qed
    qed
  qed
qed

text \<open>
  C12: the life of a watch. A start that fails leaves the descriptors and the breakpoints of the
  kernel as they were; one that succeeds has installed at least one and at most one breakpoint per
  listed thread. The polling thread ends once it reads its cancellation, and however it ends, the
  driver is closed and of its breakpoints only those are left whose removal the driver refused: the
  code asks for every removal and ignores the answers.
\<close>

theorem watch_lifecycle:
  assumes "fd_laws K fds" and "bp_laws K bps refused" and "kernel_sane K"
    and "quiet tasks (\<lambda>k. (fds k, bps k, refused k))"
    and "start_watch sys K tasks config k = (r, k1)"
  shows "case r of
      Inl e \<Rightarrow> fds k1 = fds k \<and> bps k1 = bps k
    | Inr (ws, w) \<Rightarrow> wt_breakpoints w \<noteq> [] \<and> length (wt_breakpoints w) \<le> length (ws_threads ws)
        \<and> bps k1 = bps k \<union> set (wt_breakpoints w) \<and> bps k \<inter> set (wt_breakpoints w) = {}
        \<and> (\<forall>ptr cancels out ended k2. watch_thread K ptr w cancels k1 = (out, ended, k2) \<longrightarrow>
             (True \<in> set cancels \<longrightarrow> ended) \<and>
             (ended \<longrightarrow> fds k2 = fds k \<and> bps k \<subseteq> bps k2
                \<and> bps k2 \<subseteq> bps k \<union> (set (wt_breakpoints w) \<inter> refused k2)
                \<and> refused k2 \<subseteq> refused k \<union> set (wt_breakpoints w)))"
proof -
  note st = start_driver_watch_effect [OF assms(1-4) assms(5) [unfolded start_watch_def]]
  show ?thesis
  proof (cases r)
    case (Inl e)
    with st show ?thesis by simp
  next
    case (Inr p)
    obtain ws w where p: "p = (ws, w)" by fastforce
    have "(True \<in> set cancels \<longrightarrow> ended) \<and>
        (ended \<longrightarrow> fds k2 = fds k \<and> bps k \<subseteq> bps k2 \<and> bps k2 \<subseteq> bps k \<union> (set (wt_breakpoints w) \<inter> refused k2)
          \<and> refused k2 \<subseteq> refused k \<union> set (wt_breakpoints w))"
      if t: "watch_thread K ptr w cancels k1 = (out, ended, k2)" for ptr cancels out ended k2
    proof (intro conjI impI)
      assume "True \<in> set cancels"
      from watch_cancelled [OF this, of K ptr w k1] t show ended by simp
    next
      assume ended
      with t have "watch_thread K ptr w cancels k1 = (out, True, k2)" by simp
      from watch_thread_left [OF assms(1,2) this]
      have "fds k2 = fds k1 - {wt_fd w} \<and> removal_effect bps refused (wt_breakpoints w) k1 k2" .
      with st Inr p show "fds k2 = fds k" "bps k \<subseteq> bps k2" "bps k2 \<subseteq> bps k \<union> (set (wt_breakpoints w) \<inter> refused k2)"
        "refused k2 \<subseteq> refused k \<union> set (wt_breakpoints w)"
        by (auto simp: removal_effect_def)
    qed
    then have all: "\<forall>ptr cancels out ended k2. watch_thread K ptr w cancels k1 = (out, ended, k2) \<longrightarrow>
      (True \<in> set cancels \<longrightarrow> ended) \<and>
        (ended \<longrightarrow> fds k2 = fds k \<and> bps k \<subseteq> bps k2 \<and> bps k2 \<subseteq> bps k \<union> (set (wt_breakpoints w) \<inter> refused k2)
          \<and> refused k2 \<subseteq> refused k \<union> set (wt_breakpoints w))" by blast
    from st Inr p have s: "wt_breakpoints w \<noteq> []" "length (wt_breakpoints w) \<le> length (ws_threads ws)"
      "bps k1 = bps k \<union> set (wt_breakpoints w)" "bps k \<inter> set (wt_breakpoints w) = {}" by simp_all
    show ?thesis unfolding Inr p sum.case prod.case by (intro conjI s all)
  qed
qed


lemma demo_bp_laws: "bp_laws demo_kernel (\<lambda>k. set (dk_breakpoints k)) (\<lambda>k. set (dk_refused k))"
  unfolding bp_laws_def demo_kernel_simps
proof (intro conjI allI impI)
  fix fd n v b k reply k'
  assume "demo_ioctl fd n v b k = (reply, k')"
  then show "case v of
      Create _ \<Rightarrow> set (dk_refused k') = set (dk_refused k) \<and>
        (if sint (io_rc reply) < 0 then set (dk_breakpoints k') = set (dk_breakpoints k)
         else \<forall>c. io_request reply = Create c \<longrightarrow> cr_bp_id c \<notin> set (dk_breakpoints k)
           \<and> set (dk_breakpoints k') = insert (cr_bp_id c) (set (dk_breakpoints k)))
    | Id i \<Rightarrow>
        (if sint (io_rc reply) < 0
         then set (dk_breakpoints k') = set (dk_breakpoints k) \<and> set (dk_refused k') = insert i (set (dk_refused k))
         else set (dk_breakpoints k') = set (dk_breakpoints k) - {i} \<and> set (dk_refused k') = set (dk_refused k))
    | _ \<Rightarrow> set (dk_breakpoints k') = set (dk_breakpoints k) \<and> set (dk_refused k') = set (dk_refused k)"
    by (cases "(fd, n, v, b, k)" rule: demo_ioctl.cases) (auto split: if_splits)
qed (auto simp: demo_socket_def split: if_splits)

definition demo_tasks :: "i32 \<Rightarrow> demo \<Rightarrow> (str + (str + i32) list) \<times> demo" where
  "demo_tasks pid k = (Inr [Inr pid, Inl ''gone'', Inr (pid + 1)], k)"

definition demo_config :: watch_config where
  "demo_config = \<lparr>wc_pid = 7, wc_thread = False, wc_type_name = ''w4'', wc_addr_text = ''0x10'',
     wc_ty = 2, wc_addr = 16, wc_len = 4, wc_backtrace = False, wc_buf_size = 0, wc_filter = None\<rparr>"

lemma demo_start_watch:
  "start_watch linux demo_kernel demo_tasks demo_config demo_start =
     (Inr (\<lparr>ws_threads = [7, 8]\<rparr>, \<lparr>wt_fd = 4, wt_breakpoints = [7, 8], wt_filter = None\<rparr>),
      demo_start\<lparr>dk_fds := [4], dk_breakpoints := [8, 7]\<rparr>)"
  by (simp add: start_watch_def start_driver_watch_def demo_open list_threads_def demo_tasks_def demo_config_def
      List.map_filter_def driver_create_def driver_io_def Let_def demo_start_def)

theorem watch_lifecycle_witness:
  "\<exists>out k2. watch_thread demo_kernel 0 \<lparr>wt_fd = 4, wt_breakpoints = [7, 8], wt_filter = None\<rparr> [True]
      (demo_start\<lparr>dk_fds := [4], dk_breakpoints := [8, 7]\<rparr>) = (out, True, k2)
    \<and> set (dk_breakpoints k2) = {} \<and> set (dk_fds k2) = {}"
proof -
  have q: "quiet demo_tasks f" for f :: "demo \<Rightarrow> i32 set \<times> i32 set \<times> i32 set" by (simp add: quiet_def demo_tasks_def)
  let ?w = "\<lparr>wt_fd = 4, wt_breakpoints = [7, 8], wt_filter = None\<rparr>"
  let ?k = "demo_start\<lparr>dk_fds := [4], dk_breakpoints := [8, 7]\<rparr>"
  obtain out ended k2 where t: "watch_thread demo_kernel 0 ?w [True] ?k = (out, ended, k2)" by (metis prod_cases3)
  then have r: "dk_refused k2 = []" by (auto simp: watch_thread_def driver_remove_def driver_io_def driver_drop_def demo_start_def)
  have life: "(True \<in> set [True] \<longrightarrow> ended) \<and>
      (ended \<longrightarrow> set (dk_fds k2) = set (dk_fds demo_start) \<and> set (dk_breakpoints demo_start) \<subseteq> set (dk_breakpoints k2)
        \<and> set (dk_breakpoints k2) \<subseteq> set (dk_breakpoints demo_start) \<union> (set (wt_breakpoints ?w) \<inter> set (dk_refused k2))
        \<and> set (dk_refused k2) \<subseteq> set (dk_refused demo_start) \<union> set (wt_breakpoints ?w))"
    by (rule watch_lifecycle [OF demo_fd_laws demo_bp_laws demo_sane q demo_start_watch, unfolded sum.case prod.case,
          THEN conjunct2, THEN conjunct2, THEN conjunct2, THEN conjunct2, THEN spec, THEN spec, THEN spec, THEN spec,
          THEN spec, THEN mp, OF t])
  then have "ended" "set (dk_fds k2) = set (dk_fds demo_start)"
    "set (dk_breakpoints k2) \<subseteq> set (dk_breakpoints demo_start) \<union> ({7, 8} \<inter> set (dk_refused k2))" by simp_all
  with t r show ?thesis by (simp add: demo_start_def)
qed

subsection \<open>When the polling thread gives up\<close>

text \<open>The count of failed rounds after a run of rounds: the length of the run of failures at its end.\<close>

definition error_count :: "bool list \<Rightarrow> nat" where
  "error_count fs = foldl (\<lambda>c f. next_errors f c) 0 fs"

lemma error_count_simps [simp]:
  "error_count [] = 0"
  "error_count (fs @ [f]) = (if f then error_count fs + 1 else 0)"
  by (simp_all add: error_count_def next_errors_def)

lemma error_count_ge: "m \<le> error_count fs \<longleftrightarrow> m \<le> length fs \<and> list_all (\<lambda>f. f) (last_n m fs)"
proof (induction fs arbitrary: m rule: rev_induct)
  case Nil
  show ?case by (auto simp: last_n_def)
next
  case (snoc f fs)
  then show ?case by (cases m) (auto simp: last_n_snoc)
qed

fun round_failures :: "'k kernel \<Rightarrow> u64 \<Rightarrow> watcher \<Rightarrow> nat \<Rightarrow> 'k \<Rightarrow> bool list" where
  "round_failures K ptr w 0 k = []"
| "round_failures K ptr w (Suc m) k =
     (case poll_round K ptr w (wt_breakpoints w) k of
        (out, failed, k1) \<Rightarrow> (failed = length (wt_breakpoints w)) # round_failures K ptr w m k1)"

lemma length_round_failures [simp]: "length (round_failures K ptr w m k) = m"
  by (induction m arbitrary: k) (simp_all split: prod.split)

lemma watch_loop_left_iff:
  "fst (snd (watch_loop K ptr w (replicate m False) c k)) = None \<longleftrightarrow>
     (\<exists>n. 1 \<le> n \<and> n \<le> m \<and> 10 \<le> foldl (\<lambda>c f. next_errors f c) c (take n (round_failures K ptr w m k)))"
proof (induction m arbitrary: c k)
  case (Suc m)
  obtain out n k1 where p: "poll_round K ptr w (wt_breakpoints w) k = (out, n, k1)" by (metis prod_cases3)
  let ?c = "next_errors (n = length (wt_breakpoints w)) c"
  let ?P = "\<lambda>i. 10 \<le> foldl (\<lambda>c f. next_errors f c) c (take i (round_failures K ptr w (Suc m) k))"
  have step: "?P (Suc i) \<longleftrightarrow> 10 \<le> foldl (\<lambda>c f. next_errors f c) ?c (take i (round_failures K ptr w m k1))" for i
    using p by simp
  have ex: "(\<exists>i. 1 \<le> i \<and> i \<le> Suc m \<and> ?P i) \<longleftrightarrow> (\<exists>i. i \<le> m \<and> ?P (Suc i))"
    by (metis Suc_le_D Suc_le_mono le_add1 plus_1_eq_Suc One_nat_def)
  have zero: "(\<exists>i. i \<le> m \<and> ?P (Suc i)) \<longleftrightarrow> 10 \<le> ?c \<or> (\<exists>i. 1 \<le> i \<and> i \<le> m \<and> ?P (Suc i))"
  proof -
    have "?P (Suc 0) \<longleftrightarrow> 10 \<le> ?c" using step [of 0] by simp
    then show ?thesis by (metis One_nat_def Suc_le_eq le0 neq0_conv)
  qed
  obtain outs st k2 where l: "watch_loop K ptr w (replicate m False) ?c k1 = (outs, st, k2)"
    by (metis prod_cases3)
  have "fst (snd (watch_loop K ptr w (replicate (Suc m) False) c k)) = None \<longleftrightarrow> 10 \<le> ?c \<or> st = None"
    using p l by (simp add: Let_def)
  also have "st = None \<longleftrightarrow> (\<exists>i. 1 \<le> i \<and> i \<le> m \<and> ?P (Suc i))"
    using Suc.IH [of ?c k1] l step by simp
  finally show ?case using ex zero by blast
qed simp

text \<open>
  C13: without a cancellation the polling thread ends exactly when ten rounds in a row have failed
  on every breakpoint: one poll that succeeds resets the count, and the tenth failure ends it.
\<close>

theorem watch_gives_up_iff:
  "fst (snd (watch_loop K ptr w (replicate m False) 0 k)) = None \<longleftrightarrow>
     (\<exists>n \<le> m. 10 \<le> n \<and> list_all (\<lambda>failed. failed) (last_n 10 (take n (round_failures K ptr w m k))))"
proof -
  have "10 \<le> foldl (\<lambda>c f. next_errors f c) 0 (take n (round_failures K ptr w m k)) \<longleftrightarrow>
      10 \<le> min m n \<and> list_all (\<lambda>f. f) (last_n 10 (take n (round_failures K ptr w m k)))" for n
    using error_count_ge [of 10 "take n (round_failures K ptr w m k)"] by (simp add: error_count_def)
  then have "1 \<le> n \<and> n \<le> m \<and> 10 \<le> foldl (\<lambda>c f. next_errors f c) 0 (take n (round_failures K ptr w m k)) \<longleftrightarrow>
      n \<le> m \<and> 10 \<le> n \<and> list_all (\<lambda>f. f) (last_n 10 (take n (round_failures K ptr w m k)))" for n
    by auto
  then show ?thesis by (simp only: watch_loop_left_iff)
qed

subsection \<open>The polling thread, step by step\<close>

text \<open>
  The same thread at the grain at which others can act between its steps: the cancel flag is
  read between two rounds, a round polls one breakpoint after the other, the samples of a
  poll are handed on one by one, and once the loop is left each breakpoint is removed by a call of
  its own, the answer ignored, before the driver is closed. \<open>In_Round ids failed ds\<close> is a round with
  \<open>ids\<close> still to be polled, \<open>failed\<close> polls failed so far and \<open>ds\<close> still to be handed on;
  \<open>Removing ids\<close> is a thread out of its loop with \<open>ids\<close> still to be removed.
\<close>

datatype watch_phase = Between | In_Round "i32 list" nat "sample_data list" | Removing "i32 list"

fun watch_step ::
  "'k kernel \<Rightarrow> u64 \<Rightarrow> watcher \<Rightarrow> bool \<Rightarrow> watch_phase \<Rightarrow> nat \<Rightarrow> 'k
    \<Rightarrow> sample_data list \<times> (watch_phase \<times> nat) option \<times> 'k" where
  "watch_step K ptr w cancelled Between c k =
     ([], Some (if cancelled then Removing (wt_breakpoints w) else In_Round (wt_breakpoints w) 0 [], c), k)"
| "watch_step K ptr w cancelled (In_Round ids failed (d # ds)) c k =
     ([d], Some (In_Round ids failed ds, c), k)"
| "watch_step K ptr w cancelled (In_Round (bp # ids) failed []) c k =
     (case driver_hits K ptr (wt_fd w) bp k of
        (Inr hs, k1) \<Rightarrow> ([], Some (In_Round ids failed (filter (wanted w) (map sample_of_hit hs)), c), k1)
      | (Inl e, k1) \<Rightarrow> ([], Some (In_Round ids (Suc failed) [], c), k1))"
| "watch_step K ptr w cancelled (In_Round [] failed []) c k =
     (let c' = next_errors (failed = length (wt_breakpoints w)) c
      in ([], Some (if 10 \<le> c' then Removing (wt_breakpoints w) else Between, c'), k))"
| "watch_step K ptr w cancelled (Removing (bp # ids)) c k =
     ([], Some (Removing ids, c), snd (driver_remove K (wt_fd w) bp k))"
| "watch_step K ptr w cancelled (Removing []) c k = ([], None, driver_drop K (wt_fd w) k)"

text \<open>So many steps in a row, with nothing in between.\<close>

fun watch_steps ::
  "'k kernel \<Rightarrow> u64 \<Rightarrow> watcher \<Rightarrow> bool \<Rightarrow> nat \<Rightarrow> (watch_phase \<times> nat) option \<Rightarrow> 'k
    \<Rightarrow> sample_data list \<times> (watch_phase \<times> nat) option \<times> 'k" where
  "watch_steps K ptr w cancelled (Suc n) (Some (ph, c)) k =
     (case watch_step K ptr w cancelled ph c k of
        (out, st, k1) \<Rightarrow> (case watch_steps K ptr w cancelled n st k1 of (outs, st', k2) \<Rightarrow> (out @ outs, st', k2)))"
| "watch_steps K ptr w cancelled n st k = ([], st, k)"

lemma watch_steps_0 [simp]: "watch_steps K ptr w x 0 st k = ([], st, k)"
  by (cases "(K, ptr, w, x, 0::nat, st, k)" rule: watch_steps.cases) auto

lemma watch_steps_None [simp]: "watch_steps K ptr w x n None k = ([], None, k)"
  by (cases n) simp_all

lemma watch_steps_more:
  "watch_step K ptr w x ph c k = (out, st, k1) \<Longrightarrow> watch_steps K ptr w x n st k1 = (outs, st', k2) \<Longrightarrow>
     watch_steps K ptr w x (Suc n) (Some (ph, c)) k = (out @ outs, st', k2)"
  by simp

lemma watch_steps_append:
  "watch_steps K ptr w x m st k = (out, st', k1) \<Longrightarrow> watch_steps K ptr w x n st' k1 = (outs, st'', k2) \<Longrightarrow>
     watch_steps K ptr w x (m + n) st k = (out @ outs, st'', k2)"
proof (induction m arbitrary: st k out)
  case (Suc m)
  show ?case
  proof (cases st)
    case None
    with Suc.prems show ?thesis by auto
  next
    case (Some p)
    obtain ph c where p: "p = (ph, c)" by fastforce
    obtain o1 s1 k3 where s: "watch_step K ptr w x ph c k = (o1, s1, k3)" by (metis prod_cases3)
    obtain o2 s2 k4 where r: "watch_steps K ptr w x m s1 k3 = (o2, s2, k4)" by (metis prod_cases3)
    with Suc.prems(1) Some p s have "out = o1 @ o2" "s2 = st'" "k4 = k1" by auto
    with Suc.IH [OF r [unfolded this]] Suc.prems(2) Some p s show ?thesis by simp
  qed
qed auto

lemma watch_steps_samples:
  "watch_steps K ptr w x n (Some (In_Round ids failed [], c)) k = (outs, st', k2) \<Longrightarrow>
     watch_steps K ptr w x (length ds + n) (Some (In_Round ids failed ds, c)) k = (ds @ outs, st', k2)"
  by (induction ds) simp_all

lemma watch_steps_round:
  assumes "poll_round K ptr w ids k = (out, n, k1)"
    and "c' = next_errors (failed + n = length (wt_breakpoints w)) c"
  shows "\<exists>m. watch_steps K ptr w x m (Some (In_Round ids failed [], c)) k
    = (out, Some (if 10 \<le> c' then Removing (wt_breakpoints w) else Between, c'), k1)"
  using assms
proof (induction ids arbitrary: k k1 out n failed)
  case Nil
  then show ?case by (intro exI [of _ "Suc 0"]) (simp add: Let_def)
next
  case (Cons b ids)
  let ?st = "Some (if 10 \<le> c' then Removing (wt_breakpoints w) else Between, c')"
  obtain r k2 where h: "driver_hits K ptr (wt_fd w) b k = (r, k2)" by fastforce
  obtain outs n' k3 where p: "poll_round K ptr w ids k2 = (outs, n', k3)" by (metis prod_cases3)
  show ?case
  proof (cases r)
    case (Inl e)
    with Cons.prems h p have o: "out = outs" "n = Suc n'" "k1 = k3" by auto
    then have "c' = next_errors (Suc failed + n' = length (wt_breakpoints w)) c" using Cons.prems(2) by simp
    from Cons.IH [OF p this] obtain m where
      m: "watch_steps K ptr w x m (Some (In_Round ids (Suc failed) [], c)) k2 = (outs, ?st, k3)" by blast
    have s: "watch_step K ptr w x (In_Round (b # ids) failed []) c k = ([], Some (In_Round ids (Suc failed) [], c), k2)"
      using h Inl by simp
    show ?thesis using watch_steps_more [OF s m] unfolding o append_Nil by (rule exI)
  next
    case (Inr hs)
    let ?ds = "filter (wanted w) (map sample_of_hit hs)"
    from Inr Cons.prems h p have o: "out = ?ds @ outs" "n = n'" "k1 = k3" by auto
    then have "c' = next_errors (failed + n' = length (wt_breakpoints w)) c" using Cons.prems(2) by simp
    from Cons.IH [OF p this] obtain m where
      m: "watch_steps K ptr w x m (Some (In_Round ids failed [], c)) k2 = (outs, ?st, k3)" by blast
    have s: "watch_step K ptr w x (In_Round (b # ids) failed []) c k = ([], Some (In_Round ids failed ?ds, c), k2)"
      using h Inr by simp
    show ?thesis using watch_steps_more [OF s watch_steps_samples [OF m]] unfolding o append_Nil by (rule exI)
  qed
qed

lemma watch_steps_removing:
  "watch_steps K ptr w x (Suc (length ids)) (Some (Removing ids, c)) k
     = ([], None, driver_drop K (wt_fd w) (remove_all K (wt_fd w) ids k))"
proof (induction ids arbitrary: k)
  case (Cons b ids)
  have "watch_step K ptr w x (Removing (b # ids)) c k = ([], Some (Removing ids, c), snd (driver_remove K (wt_fd w) b k))"
    by simp
  from watch_steps_more [OF this Cons.IH] show ?case by simp
qed simp

text \<open>
  The loop of \<open>watch_loop\<close> and the thread step by step agree: left to itself, a thread between
  two rounds takes steps that hand on exactly the samples of one turn of the loop, in order, and is
  then between two rounds with the same count, or removing its breakpoints when the loop is left.
\<close>

lemma watch_steps_loop:
  assumes "watch_loop K ptr w [cancelled] c k = (out, st, k')"
  shows "\<exists>m c'. watch_steps K ptr w cancelled m (Some (Between, c)) k
    = (out, Some (case st of Some e \<Rightarrow> (Between, e) | None \<Rightarrow> (Removing (wt_breakpoints w), c')), k')"
proof (cases cancelled)
  case True
  with assms show ?thesis by (intro exI [of _ "Suc 0"] exI [of _ c]) auto
next
  case False
  obtain o1 n k1 where p: "poll_round K ptr w (wt_breakpoints w) k = (o1, n, k1)" by (metis prod_cases3)
  let ?c = "next_errors (0 + n = length (wt_breakpoints w)) c"
  from watch_steps_round [where failed = 0 and c = c and x = cancelled, OF p refl] obtain m where
    m: "watch_steps K ptr w cancelled m (Some (In_Round (wt_breakpoints w) 0 [], c)) k
      = (o1, Some (if 10 \<le> ?c then Removing (wt_breakpoints w) else Between, ?c), k1)" by blast
  have "watch_steps K ptr w cancelled (Suc m) (Some (Between, c)) k
      = (o1, Some (if 10 \<le> ?c then Removing (wt_breakpoints w) else Between, ?c), k1)"
    using False m by simp
  moreover have "out = o1" "k' = k1" "st = (if 10 \<le> ?c then None else Some ?c)"
    using assms False p by (auto simp: Let_def split: if_splits)
  ultimately show ?thesis by (intro exI [of _ "Suc m"] exI [of _ ?c]) auto
qed

text \<open>
  A cancelled thread ends, wherever the cancellation meets it: from any point of a round it
  hands on the rest of that round, no more, removes its breakpoints and closes the driver.
\<close>

lemma cancelled_thread_ends:
  "\<exists>m. watch_steps K ptr w True m (Some (In_Round ids failed ds, c)) k
     = (ds @ fst (poll_round K ptr w ids k), None,
        driver_drop K (wt_fd w) (remove_all K (wt_fd w) (wt_breakpoints w) (snd (snd (poll_round K ptr w ids k)))))"
proof -
  obtain out n k1 where p: "poll_round K ptr w ids k = (out, n, k1)" by (metis prod_cases3)
  let ?c = "next_errors (failed + n = length (wt_breakpoints w)) c"
  let ?fin = "([], None, driver_drop K (wt_fd w) (remove_all K (wt_fd w) (wt_breakpoints w) k1))"
  from watch_steps_round [where failed = failed and c = c and x = True, OF p refl] obtain m where
    "watch_steps K ptr w True m (Some (In_Round ids failed [], c)) k
      = (out, Some (if 10 \<le> ?c then Removing (wt_breakpoints w) else Between, ?c), k1)" by blast
  then have m: "watch_steps K ptr w True (length ds + m) (Some (In_Round ids failed ds, c)) k
      = (ds @ out, Some (if 10 \<le> ?c then Removing (wt_breakpoints w) else Between, ?c), k1)"
    by (rule watch_steps_samples)
  have rm: "watch_steps K ptr w True (Suc (length (wt_breakpoints w))) (Some (Removing (wt_breakpoints w), ?c)) k1 = ?fin"
    by (rule watch_steps_removing)
  have "\<exists>n. watch_steps K ptr w True n (Some (if 10 \<le> ?c then Removing (wt_breakpoints w) else Between, ?c)) k1 = ?fin"
  proof (cases "10 \<le> ?c")
    case True
    with rm show ?thesis by (intro exI [of _ "Suc (length (wt_breakpoints w))"]) simp
  next
    case False
    have "watch_step K ptr w True Between ?c k1 = ([], Some (Removing (wt_breakpoints w), ?c), k1)" by simp
    from watch_steps_more [OF this rm] False show ?thesis
      by (intro exI [of _ "Suc (Suc (length (wt_breakpoints w)))"]) simp
  qed
  then obtain n where "watch_steps K ptr w True n (Some (if 10 \<le> ?c then Removing (wt_breakpoints w) else Between, ?c)) k1 = ?fin"
    by blast
  from watch_steps_append [OF m this] show ?thesis unfolding p fst_conv snd_conv append_Nil2 by (rule exI)
qed


subsection \<open>What a round delivers\<close>

text \<open>
  What the driver answers when it is asked for the hits of \<open>ids\<close>, one request after the other, and
  the hits an answer brings: as many as it counts, from the start of the buffer it has filled.
\<close>

fun driver_answers ::
  "'k kernel \<Rightarrow> u64 \<Rightarrow> i32 \<Rightarrow> i32 list \<Rightarrow> 'k \<Rightarrow> ioctl_reply list \<times> 'k" where
  "driver_answers K ptr fd [] k = ([], k)"
| "driver_answers K ptr fd (bp # ids) k =
     (case k_ioctl K fd 616
         (Hits \<lparr>hq_bp_id = bp, hq_flags = 1, hq_buffer = ptr, hq_capacity = 256, hq_count = 0,
            hq_total = 0, hq_dropped = 0, hq_fp = 0\<rparr>)
         (Hit_Buffer (replicate 256 default_hit)) k of
        (reply, k1) \<Rightarrow> (case driver_answers K ptr fd ids k1 of (replies, k2) \<Rightarrow> (reply # replies, k2)))"

definition is_refusal :: "ioctl_reply \<Rightarrow> bool" where
  "is_refusal reply \<longleftrightarrow> sint (io_rc reply) < 0"

definition brought_hits :: "ioctl_reply \<Rightarrow> driver_hit list" where
  "brought_hits reply =
     (if is_refusal reply then []
      else case (io_request reply, io_buffer reply) of
          (Hits h, Hit_Buffer hs) \<Rightarrow> take (unat (hq_count h)) hs
        | _ \<Rightarrow> [])"

lemma driver_hits_answer:
  assumes "kernel_sane K"
    and "k_ioctl K fd 616 (Hits \<lparr>hq_bp_id = b, hq_flags = 1, hq_buffer = ptr, hq_capacity = 256, hq_count = 0,
      hq_total = 0, hq_dropped = 0, hq_fp = 0\<rparr>) (Hit_Buffer (replicate 256 default_hit)) k = (reply, k')"
  shows "\<exists>r. driver_hits K ptr fd b k = (r, k')
    \<and> (if is_refusal reply then \<exists>e. r = Inl e else r = Inr (brought_hits reply))"
    and "length (brought_hits reply) \<le> 256"
proof -
  from kernel_saneD [OF assms] obtain h hs where "io_request reply = Hits h" "io_buffer reply = Hit_Buffer hs"
      "length hs = 256"
    by (auto simp: same_request_hits same_buffer_hits)
  then show "\<exists>r. driver_hits K ptr fd b k = (r, k')
      \<and> (if is_refusal reply then \<exists>e. r = Inl e else r = Inr (brought_hits reply))"
    and "length (brought_hits reply) \<le> 256"
    using assms(2) by (simp_all add: driver_hits_def driver_io_def brought_hits_def is_refusal_def Let_def)
qed

text \<open>
  C35: a round hands on exactly what the driver has brought: of every answer that is not a refusal
  the hits it counts, in the order of the breakpoints and of the buffer, each as a sample, those the
  filter of the watch drops left out. The refusals are the failed polls, and no answer brings more
  than 256 hits.
\<close>

theorem watch_round_delivers:
  assumes "kernel_sane K" and "driver_answers K ptr (wt_fd w) ids k = (replies, k')"
  shows "poll_round K ptr w ids k =
      (filter (\<lambda>d. case wt_filter w of None \<Rightarrow> True | Some f \<Rightarrow> matches f d)
         (map sample_of_hit (concat (map brought_hits replies))),
       length (filter is_refusal replies), k')
    \<and> length replies = length ids \<and> list_all (\<lambda>reply. length (brought_hits reply) \<le> 256) replies"
  using assms(2)
proof (induction ids arbitrary: k replies)
  case (Cons b ids)
  let ?v = "Hits \<lparr>hq_bp_id = b, hq_flags = 1, hq_buffer = ptr, hq_capacity = 256, hq_count = 0,
      hq_total = 0, hq_dropped = 0, hq_fp = 0\<rparr>"
  obtain reply k1 where io: "k_ioctl K (wt_fd w) 616 ?v (Hit_Buffer (replicate 256 default_hit)) k = (reply, k1)"
    by fastforce
  obtain rs k2 where rest: "driver_answers K ptr (wt_fd w) ids k1 = (rs, k2)" by fastforce
  from Cons.prems io rest have e: "replies = reply # rs" "k' = k2" by simp_all
  from driver_hits_answer(1) [OF assms(1) io] obtain r where h: "driver_hits K ptr (wt_fd w) b k = (r, k1)"
    and r: "if is_refusal reply then \<exists>e. r = Inl e else r = Inr (brought_hits reply)" by blast
  have none: "is_refusal reply \<Longrightarrow> brought_hits reply = []" by (simp add: brought_hits_def)
  from Cons.IH [OF rest [folded e(2)]] r h none driver_hits_answer(2) [OF assms(1) io] show ?case
    unfolding e by (auto simp: wanted_def [abs_def] split: if_splits)
qed simp

theorem watch_round_delivers_witness:
  "\<exists>d k. poll_round demo_kernel 0 \<lparr>wt_fd = 4, wt_breakpoints = [7, 8], wt_filter =
      Some \<lparr>groups = [[\<lparr>p_reg = 0, p_mask = None, p_op = Eq, p_value = 7\<rparr>]]\<rparr>\<rparr> [7, 8] demo_start = ([d], 0, k) \<and> sd_tid d = 7"
proof -
  let ?w = "\<lparr>wt_fd = 4, wt_breakpoints = [7, 8], wt_filter =
      Some \<lparr>groups = [[\<lparr>p_reg = 0, p_mask = None, p_op = Eq, p_value = 7\<rparr>]]\<rparr>\<rparr>"
  obtain r1 r2 k where a: "driver_answers demo_kernel 0 (wt_fd ?w) [7, 8] demo_start = ([r1, r2], k)"
    and r: "\<not> is_refusal r1" "\<not> is_refusal r2" "brought_hits r1 = [demo_hit 7]" "brought_hits r2 = [demo_hit 8]"
    by (simp add: is_refusal_def brought_hits_def take_Suc hd_conv_nth)
  have f: "matches f (sample_of_hit (demo_hit i)) \<longleftrightarrow> ucast i = (7 :: u64)"
    if "f = \<lparr>groups = [[\<lparr>p_reg = 0, p_mask = None, p_op = Eq, p_value = 7\<rparr>]]\<rparr>" for f i
    by (simp add: that matches_def pred_matches_def get_def sample_of_hit_def demo_hit_def default_snapshot_def
        Let_def nth_append)
  have "sd_tid (sample_of_hit (demo_hit 7)) = 7" by (simp add: sample_of_hit_def demo_hit_def Let_def)
  then show ?thesis unfolding watch_round_delivers [OF demo_sane a, THEN conjunct1] using r by (simp add: f)
qed

lemma snapshot_registers:
  assumes "length (sn_regs (dh_after h)) = 31"
  shows "length (sd_regs (sample_of_hit h)) = regs_count Aarch64"
    and "i < 31 \<Longrightarrow> sd_regs (sample_of_hit h) ! i = sn_regs (dh_after h) ! i"
    and "sd_regs (sample_of_hit h) ! 31 = sn_sp (dh_after h)"
    and "sd_regs (sample_of_hit h) ! 32 = sn_pc (dh_after h)"
  using assms by (simp_all add: sample_of_hit_def Let_def nth_append)

text \<open>
  C36: on AArch64 a driver hit becomes a sample whose registers are exactly those the filter
  language can name: \<open>x0\<close> to \<open>lr\<close> are the saved registers, \<open>sp\<close> and \<open>pc\<close> the saved stack pointer
  and program counter, so no predicate of a parsed filter lacks its register.
\<close>

theorem hit_registers_by_name:
  assumes "length (sn_regs (dh_after h)) = 31" and "parse_reg Aarch64 name = Inr i"
  shows "get (sd_regs (sample_of_hit h)) i =
      Some (if eq_ignore_ascii_case ''sp'' name then sn_sp (dh_after h)
            else if eq_ignore_ascii_case ''pc'' name then sn_pc (dh_after h)
            else sn_regs (dh_after h) ! i)"
proof -
  have sp: "eq_ignore_ascii_case ''sp'' name \<longleftrightarrow> i = 31" and pc: "eq_ignore_ascii_case ''pc'' name \<longleftrightarrow> i = 32"
    using parse_reg_iff [of Aarch64 name 31] parse_reg_iff [of Aarch64 name 32] assms(2)
    by (auto simp: id_to_str_def aarch64_names_def)
  have "i < 33" using assms(2) by (simp add: parse_reg_iff)
  then consider "i < 31" | "i = 31" | "i = 32" by linarith
  then show ?thesis
    using snapshot_registers [OF assms(1)] sp pc by cases (simp_all add: get_def)
qed

theorem hit_registers_by_name_witness:
  "get (sd_regs (sample_of_hit default_hit)) 32 = Some 0"
proof -
  have eq: "eq_ignore_ascii_case ''pc'' ''PC''" "\<not> eq_ignore_ascii_case ''sp'' ''PC''" by code_simp+
  then have "parse_reg Aarch64 ''PC'' = Inr 32"
    by (simp add: parse_reg_iff id_to_str_def aarch64_names_def)
  from hit_registers_by_name [OF _ this, of default_hit] eq show ?thesis
    by (simp add: default_hit_def default_snapshot_def)
qed

end
