(* ===== verification/Process_List.thy ===== *)
theory Process_List
  imports Rust_Int "HOL-Library.Multiset"
begin

section \<open>The list of processes (src/server.rs, read\_processes)\<close>

text \<open>
  \<open>GET /processes\<close> walks \<open>/proc\<close>, reads four files of every process, filters, sorts and
  truncates. The file system is a parameter \<open>F\<close> of functions over a world: what the directory
  walk yields, the text and the bytes of a file, the target of a link. A directory entry is an
  error, a name, or a name that is not UTF-8.
\<close>

record process_view =
  pv_pid :: u32
  pv_ppid :: "u32 option"
  pv_state :: "str option"
  pv_comm :: str
  pv_cmdline :: "str list"
  pv_exe :: "str option"

record processes_query =
  pq_q :: "str option"
  pq_limit :: "nat option"

record 'w proc_fs =
  pf_dir :: "'w \<Rightarrow> str \<Rightarrow> (str + (str + str option) list) \<times> 'w"
  pf_text :: "'w \<Rightarrow> str \<Rightarrow> (str + str) \<times> 'w"
  pf_bytes :: "'w \<Rightarrow> str \<Rightarrow> (str + u8 list) \<times> 'w"
  pf_link :: "'w \<Rightarrow> str \<Rightarrow> (str + str) \<times> 'w"

subsection \<open>String::from\_utf8\_lossy\<close>

text \<open>
  One step of the standard library's decoder: whether the front of the bytes is a UTF-8
  character, and how many bytes it takes; a broken front takes its longest valid prefix, at least
  one byte. The byte after the end counts as 0.
\<close>

definition cont_byte :: "nat \<Rightarrow> bool" where
  "cont_byte b \<longleftrightarrow> 0x80 \<le> b \<and> b \<le> 0xBF"

definition second_of_three :: "nat \<Rightarrow> nat \<Rightarrow> bool" where
  "second_of_three b c \<longleftrightarrow>
     (b = 0xE0 \<and> 0xA0 \<le> c \<and> c \<le> 0xBF) \<or> (0xE1 \<le> b \<and> b \<le> 0xEC \<and> cont_byte c)
     \<or> (b = 0xED \<and> 0x80 \<le> c \<and> c \<le> 0x9F) \<or> (0xEE \<le> b \<and> b \<le> 0xEF \<and> cont_byte c)"

definition second_of_four :: "nat \<Rightarrow> nat \<Rightarrow> bool" where
  "second_of_four b c \<longleftrightarrow>
     (b = 0xF0 \<and> 0x90 \<le> c \<and> c \<le> 0xBF) \<or> (0xF1 \<le> b \<and> b \<le> 0xF3 \<and> cont_byte c)
     \<or> (b = 0xF4 \<and> 0x80 \<le> c \<and> c \<le> 0x8F)"

definition byte_at :: "u8 list \<Rightarrow> nat \<Rightarrow> nat" where
  "byte_at bs i = (if i < length bs then unat (bs ! i) else 0)"

definition utf8_step :: "u8 list \<Rightarrow> bool \<times> nat" where
  "utf8_step bs =
     (let b = byte_at bs 0 in
      if b < 0x80 then (True, 1)
      else if 0xC2 \<le> b \<and> b \<le> 0xDF then
        (if cont_byte (byte_at bs 1) then (True, 2) else (False, 1))
      else if 0xE0 \<le> b \<and> b \<le> 0xEF then
        (if \<not> second_of_three b (byte_at bs 1) then (False, 1)
         else if cont_byte (byte_at bs 2) then (True, 3) else (False, 2))
      else if 0xF0 \<le> b \<and> b \<le> 0xF4 then
        (if \<not> second_of_four b (byte_at bs 1) then (False, 1)
         else if \<not> cont_byte (byte_at bs 2) then (False, 2)
         else if cont_byte (byte_at bs 3) then (True, 4) else (False, 3))
      else (False, 1))"

lemma utf8_step_pos: "0 < snd (utf8_step bs)"
  by (simp add: utf8_step_def Let_def)

definition replacement :: "u8 list" where
  "replacement = [0xEF, 0xBF, 0xBD]"

function lossy :: "u8 list \<Rightarrow> u8 list" where
  "lossy bs =
     (if bs = [] then []
      else let n = snd (utf8_step bs)
           in (if fst (utf8_step bs) then take n bs else replacement) @ lossy (drop n bs))"
  by pat_completeness auto
termination
  by (relation "measure length") (use utf8_step_pos in \<open>auto simp: diff_less\<close>)

declare lossy.simps [simp del]

definition from_utf8_lossy :: "u8 list \<Rightarrow> str" where
  "from_utf8_lossy bs = map (\<lambda>b. char_of (unat b)) (lossy bs)"

subsection \<open>Parsing\<close>

definition parse_cmdline :: "u8 list \<Rightarrow> str list" where
  "parse_cmdline bytes = map from_utf8_lossy (filter (\<lambda>p. p \<noteq> []) (split_on 0 bytes))"

fun find_map :: "('a \<Rightarrow> 'b option) \<Rightarrow> 'a list \<Rightarrow> 'b option" where
  "find_map f [] = None"
| "find_map f (x # xs) = (case f x of Some y \<Rightarrow> Some y | None \<Rightarrow> find_map f xs)"

definition status_name :: "str \<Rightarrow> str option" where
  "status_name status = map_option trim (find_map (strip_prefix ''Name:'') (lines status))"

definition parse_u32 :: "str \<Rightarrow> u32 option" where
  "parse_u32 s = result_ok (u32_from_radix 10 s)"

definition status_u32 :: "str \<Rightarrow> str \<Rightarrow> u32 option" where
  "status_u32 key status =
     Option.bind (find_map (strip_prefix (key @ '':'')) (lines status)) (\<lambda>v. parse_u32 (trim v))"

definition status_string :: "str \<Rightarrow> str \<Rightarrow> str option" where
  "status_string key status = map_option trim (find_map (strip_prefix (key @ '':'')) (lines status))"

definition process_matches :: "process_view \<Rightarrow> str \<Rightarrow> bool" where
  "process_matches p needle \<longleftrightarrow>
     str_contains (show_nat (unat (pv_pid p))) needle
     \<or> str_contains (to_ascii_lowercase (pv_comm p)) needle
     \<or> list_ex (\<lambda>arg. str_contains (to_ascii_lowercase arg) needle) (pv_cmdline p)
     \<or> (case pv_exe p of None \<Rightarrow> False | Some exe \<Rightarrow> str_contains (to_ascii_lowercase exe) needle)"

subsection \<open>Reading\<close>

definition proc_path :: "u32 \<Rightarrow> str \<Rightarrow> str" where
  "proc_path pid file = ''/proc/'' @ show_nat (unat pid) @ ''/'' @ file"

definition comm_of :: "u32 \<Rightarrow> str option \<Rightarrow> str option \<Rightarrow> str" where
  "comm_of pid comm status =
     (case Option.bind comm (\<lambda>c. if trim c = [] then None else Some (trim c)) of
        Some c \<Rightarrow> c
      | None \<Rightarrow> (case Option.bind status status_name of Some n \<Rightarrow> n | None \<Rightarrow> show_nat (unat pid)))"

definition read_process :: "'w proc_fs \<Rightarrow> u32 \<Rightarrow> 'w \<Rightarrow> process_view option \<times> 'w" where
  "read_process F pid w =
     (let (st, w1) = pf_text F w (proc_path pid ''status'');
          (cm, w2) = pf_text F w1 (proc_path pid ''comm'');
          (cl, w3) = pf_bytes F w2 (proc_path pid ''cmdline'');
          (ex, w4) = pf_link F w3 (proc_path pid ''exe'');
          status = result_ok st
      in (Some \<lparr>pv_pid = pid,
            pv_ppid = Option.bind status (status_u32 ''PPid''),
            pv_state = Option.bind status (status_string ''State''),
            pv_comm = comm_of pid (result_ok cm) status,
            pv_cmdline = (case result_ok cl of Some b \<Rightarrow> parse_cmdline b | None \<Rightarrow> []),
            pv_exe = result_ok ex\<rparr>, w4))"

text \<open>The body of the loop over the directory: every \<open>continue\<close> is a \<open>None\<close>.\<close>

definition visit :: "'w proc_fs \<Rightarrow> str option \<Rightarrow> str + str option \<Rightarrow> 'w \<Rightarrow> process_view option \<times> 'w" where
  "visit F needle entry w =
     (case Option.bind (Option.bind (result_ok entry) (\<lambda>n. n)) parse_u32 of
        None \<Rightarrow> (None, w)
      | Some pid \<Rightarrow>
          (case read_process F pid w of
             (None, w') \<Rightarrow> (None, w')
           | (Some p, w') \<Rightarrow>
               ((case needle of None \<Rightarrow> Some p
                 | Some n \<Rightarrow> if process_matches p n then Some p else None), w')))"

fun walk :: "'w proc_fs \<Rightarrow> str option \<Rightarrow> (str + str option) list \<Rightarrow> 'w \<Rightarrow> process_view list \<times> 'w" where
  "walk F needle [] w = ([], w)"
| "walk F needle (e # es) w =
     (case visit F needle e w of
        (p, w1) \<Rightarrow>
          (case walk F needle es w1 of
             (ps, w2) \<Rightarrow> (case p of Some x \<Rightarrow> (x # ps, w2) | None \<Rightarrow> (ps, w2))))"

definition query_limit :: "processes_query \<Rightarrow> nat" where
  "query_limit q = min (case pq_limit q of Some n \<Rightarrow> n | None \<Rightarrow> 4096) 4096"

definition read_processes ::
  "'w proc_fs \<Rightarrow> processes_query \<Rightarrow> 'w \<Rightarrow> (str + process_view list) \<times> 'w" where
  "read_processes F q w =
     (let needle = map_option to_ascii_lowercase (pq_q q); limit = query_limit q in
      case pf_dir F w ''/proc'' of
        (Inl e, w1) \<Rightarrow> (Inl e, w1)
      | (Inr es, w1) \<Rightarrow>
          (case walk F needle es w1 of
             (ps, w2) \<Rightarrow>
               let sorted = sort_key (\<lambda>p. unat (pv_pid p)) ps
               in (Inr (if length sorted > limit then take limit sorted else sorted), w2)))"

subsection \<open>Searching\<close>

definition search_fields :: "process_view \<Rightarrow> str list" where
  "search_fields p = show_nat (unat (pv_pid p)) # pv_comm p # pv_cmdline p
     @ (case pv_exe p of None \<Rightarrow> [] | Some e \<Rightarrow> [e])"

lemma contains_ignoring_case:
  "str_contains (to_ascii_lowercase t) (to_ascii_lowercase s) \<longleftrightarrow>
     (\<exists>a m b. t = a @ m @ b \<and> eq_ignore_ascii_case m s)"
proof
  assume "str_contains (to_ascii_lowercase t) (to_ascii_lowercase s)"
  then obtain a b where ab: "map lower_char t = a @ to_ascii_lowercase s @ b"
    by (auto simp: str_contains_iff to_ascii_lowercase_def)
  define m where "m = take (length s) (drop (length a) t)"
  have "map lower_char m = to_ascii_lowercase s"
    unfolding m_def using ab by (simp flip: take_map drop_map)
  moreover have "t = take (length a) t @ m @ drop (length s) (drop (length a) t)"
    unfolding m_def by (simp only: append_take_drop_id)
  ultimately show "\<exists>a m b. t = a @ m @ b \<and> eq_ignore_ascii_case m s"
    by (metis eq_ignore_ascii_case_def to_ascii_lowercase_def)
next
  assume "\<exists>a m b. t = a @ m @ b \<and> eq_ignore_ascii_case m s"
  then show "str_contains (to_ascii_lowercase t) (to_ascii_lowercase s)"
    by (auto simp: str_contains_iff eq_ignore_ascii_case_def) blast
qed

lemma show_nat_lower: "to_ascii_lowercase (show_nat n) = show_nat n"
  using show_radix_digits [of n]
  by (auto simp: to_ascii_lowercase_def show_nat_def list_all_iff class_defs intro!: map_idI lower_char_not_upper)

lemma process_matches_iff:
  "process_matches p (to_ascii_lowercase s) \<longleftrightarrow>
     (\<exists>t \<in> set (search_fields p). \<exists>a m b. t = a @ m @ b \<and> eq_ignore_ascii_case m s)"
proof -
  have "process_matches p (to_ascii_lowercase s) \<longleftrightarrow>
      (\<exists>t \<in> set (search_fields p). str_contains (to_ascii_lowercase t) (to_ascii_lowercase s))"
    by (auto simp: process_matches_def search_fields_def list_ex_iff show_nat_lower split: option.splits)
  then show ?thesis by (simp only: contains_ignoring_case)
qed

subsection \<open>The walk\<close>

definition entry_pid :: "str + str option \<Rightarrow> u32 option" where
  "entry_pid e = Option.bind (Option.bind (result_ok e) (\<lambda>n. n)) parse_u32"

lemma read_process_pid: "\<exists>p w'. read_process F pid w = (Some p, w') \<and> pv_pid p = pid"
  by (simp add: read_process_def Let_def split: prod.split)

text \<open>The processes of a list of pids, read one after the other.\<close>

fun read_each :: "'w proc_fs \<Rightarrow> u32 list \<Rightarrow> 'w \<Rightarrow> process_view list \<times> 'w" where
  "read_each F [] w = ([], w)"
| "read_each F (pid # pids) w =
     (case read_process F pid w of
        (p, w1) \<Rightarrow>
          (case read_each F pids w1 of
             (ps, w2) \<Rightarrow> (case p of Some x \<Rightarrow> (x # ps, w2) | None \<Rightarrow> (ps, w2))))"

lemma read_each_pids: "map pv_pid (fst (read_each F pids w)) = pids"
proof (induction pids arbitrary: w)
  case (Cons pid pids)
  obtain p w' where p: "read_process F pid w = (Some p, w')" "pv_pid p = pid"
    using read_process_pid [of F pid w] by auto
  with Cons [of w'] show ?case by (auto split: prod.split)
qed simp

lemma walk_reads:
  "walk F needle es w =
     (case read_each F (List.map_filter entry_pid es) w of
        (ps, w') \<Rightarrow> (filter (\<lambda>p. case needle of None \<Rightarrow> True | Some n \<Rightarrow> process_matches p n) ps, w'))"
proof (induction es arbitrary: w)
  case (Cons e es)
  show ?case
  proof (cases "entry_pid e")
    case None
    then have "visit F needle e w = (None, w)" by (simp add: visit_def entry_pid_def)
    with None Cons [of w] show ?thesis by (simp add: List.map_filter_def split: prod.split)
  next
    case (Some pid)
    obtain p w1 where p: "read_process F pid w = (Some p, w1)" using read_process_pid [of F pid w] by auto
    with Some have "visit F needle e w =
        (case needle of None \<Rightarrow> Some p | Some n \<Rightarrow> if process_matches p n then Some p else None, w1)"
      by (simp add: visit_def entry_pid_def)
    with Some p Cons [of w1] show ?thesis
      by (simp add: List.map_filter_def split: prod.split option.split)
  qed
qed (simp add: List.map_filter_def)

lemma read_processes_eq:
  assumes "pf_dir F w ''/proc'' = (Inr es, w1)" and "read_each F (List.map_filter entry_pid es) w1 = (views, w2)"
  shows "read_processes F q w =
    (Inr (take (query_limit q) (sort_key (\<lambda>p. unat (pv_pid p))
       (filter (\<lambda>p. case pq_q q of None \<Rightarrow> True | Some s \<Rightarrow> process_matches p (to_ascii_lowercase s)) views))), w2)"
proof -
  have "(case map_option to_ascii_lowercase (pq_q q) of None \<Rightarrow> True | Some n \<Rightarrow> process_matches p n)
      = (case pq_q q of None \<Rightarrow> True | Some s \<Rightarrow> process_matches p (to_ascii_lowercase s))" for p
    by (cases "pq_q q") simp_all
  then show ?thesis using assms by (simp add: read_processes_def walk_reads Let_def)
qed

subsection \<open>Files of /proc\<close>

lemma split_on_joined:
  "list_all (\<lambda>x. c \<notin> set x) xs \<Longrightarrow> split_on c (concat (map (\<lambda>x. x @ [c]) xs)) = xs @ [[]]"
  by (induction xs) (simp_all add: split_on_append [of c _ "concat _"] split_on_single)

lemma lines_joined:
  assumes "list_all (\<lambda>l. CHR 0x0A \<notin> set l \<and> (l = [] \<or> byte (last l) \<noteq> 13)) ls"
  shows "lines (concat (map (\<lambda>l. l @ [CHR 0x0A]) ls)) = ls"
proof -
  have nl: "char_of (10 :: nat) = CHR 0x0A" by code_simp
  have "lines_of (ls @ [[]]) = ls" if "list_all (\<lambda>l. l = [] \<or> byte (last l) \<noteq> 13) ls"
    using that
  proof (induction ls)
    case (Cons l ls)
    then show ?case by (cases ls) (auto simp: strip_cr_def)
  qed simp
  moreover have "list_all (\<lambda>l. CHR 0x0A \<notin> set l) ls" and "list_all (\<lambda>l. l = [] \<or> byte (last l) \<noteq> 13) ls"
    using assms by (auto simp: list_all_iff)
  ultimately show ?thesis by (simp add: lines_def nl split_on_joined)
qed

lemma find_map_append: "list_all (\<lambda>x. f x = None) xs \<Longrightarrow> find_map f (xs @ ys) = find_map f ys"
  by (induction xs) auto

definition utf8_valid :: "u8 list \<Rightarrow> bool" where
  "utf8_valid bs \<longleftrightarrow> lossy bs = bs"

lemma lossy_ascii: "list_all (\<lambda>b. unat b < 0x80) bs \<Longrightarrow> lossy bs = bs"
proof (induction bs)
  case (Cons b bs)
  then have "utf8_step (b # bs) = (True, 1)" by (simp add: utf8_step_def byte_at_def)
  with Cons show ?case by (simp add: lossy.simps [of "b # bs"])
qed (simp add: lossy.simps)

definition to_bytes :: "str \<Rightarrow> u8 list" where
  "to_bytes s = map (\<lambda>c. of_nat (byte c)) s"

lemma from_utf8_lossy_valid: "utf8_valid (to_bytes s) \<Longrightarrow> from_utf8_lossy (to_bytes s) = s"
  by (simp add: from_utf8_lossy_def utf8_valid_def to_bytes_def comp_def unat_of_nat take_bit_nat_def)


lemma parse_u32_show [simp]: "parse_u32 (show_nat (unat (a :: u32))) = Some a"
proof -
  have "from_radix (2 ^ 32) 10 (show_radix 10 (unat a)) = Inr (unat a)"
    using from_radix_show [of 10 "unat a" "2 ^ 32"] unsigned_less [of a, where ?'a = nat] by simp
  then show ?thesis by (simp add: parse_u32_def u32_from_radix_def show_nat_def)
qed

lemma printing_show_nat: "printing (show_nat n)"
  using show_radix_digits [of n] by (auto simp: printing_def show_nat_def list_all_iff is_digit_def)

lemma trim_tab: "trim (CHR 0x09 # s) = trim s"
proof -
  have "ws_width (CHR 0x09 # s) = 1" by (rule ws_width_ascii) (simp add: byte_def)
  then show ?thesis by (simp add: trim_def trim_start_ws)
qed

lemma map_sort_key: "map f (sort_key f xs) = sort (map f xs)"
  by (rule properties_for_sort [symmetric]) simp_all

text \<open>A status line \<open>key:<tab>value\<close> after lines with other keys, and before anything.\<close>

definition status_line :: "str \<Rightarrow> str \<Rightarrow> str" where
  "status_line key v = key @ '':'' @ [CHR 0x09] @ v"

definition status_text :: "str list \<Rightarrow> str" where
  "status_text ls = concat (map (\<lambda>l. l @ [CHR 0x0A]) ls)"

definition plain_line :: "str \<Rightarrow> bool" where
  "plain_line l \<longleftrightarrow> CHR 0x0A \<notin> set l \<and> (l = [] \<or> byte (last l) \<noteq> 13)"

lemma plain_lineI: "list_all (\<lambda>c. 14 \<le> byte c \<or> byte c = 9) l \<Longrightarrow> plain_line l"
proof -
  assume l: "list_all (\<lambda>c. 14 \<le> byte c \<or> byte c = 9) l"
  have "byte (CHR 0x0A) = 10" by (simp add: byte_def)
  then have "CHR 0x0A \<notin> set l" using l by (auto simp: list_all_iff)
  moreover have "byte (last l) \<noteq> 13" if "l \<noteq> []" using l last_in_set [OF that] by (auto simp: list_all_iff)
  ultimately show ?thesis by (auto simp: plain_line_def)
qed

lemma find_status_line:
  assumes "list_all plain_line (pre @ status_line key v # post)"
    and "list_all (\<lambda>l. strip_prefix (key @ '':'') l = None) pre"
  shows "find_map (strip_prefix (key @ '':'')) (lines (status_text (pre @ status_line key v # post)))
    = Some (CHR 0x09 # v)"
proof -
  have "lines (status_text (pre @ status_line key v # post)) = pre @ status_line key v # post"
    unfolding status_text_def by (rule lines_joined) (use assms(1) in \<open>simp add: plain_line_def [abs_def]\<close>)
  moreover have "strip_prefix (key @ '':'') (status_line key v) = Some (CHR 0x09 # v)"
    using strip_prefix_append [of "key @ '':''" "CHR 0x09 # v"] by (simp add: status_line_def)
  ultimately show ?thesis using assms(2) by (simp add: find_map_append)
qed

subsection \<open>Properties\<close>

text \<open>
  C39: the listing of processes: of all numeric entries of \<open>/proc\<close>, whatever of their files could be
  read, those in which the search text occurs, up to ASCII case, in the pid, the name, an argument or the
  path of the executable, in order of their pids, and of these the first \<open>limit\<close>, never more than 4096.
\<close>

theorem processes_selected:
  assumes "pf_dir F w ''/proc'' = (Inr es, w1)"
    and "read_each F (List.map_filter (\<lambda>e. case e of Inr (Some name) \<Rightarrow> parse_u32 name | _ \<Rightarrow> None) es) w1 = (views, w2)"
  shows "read_processes F q w =
    (Inr (take (min (case pq_limit q of None \<Rightarrow> 4096 | Some n \<Rightarrow> n) 4096)
       (sort_key (\<lambda>p. unat (pv_pid p)) (filter (\<lambda>p. case pq_q q of None \<Rightarrow> True | Some s \<Rightarrow>
          \<exists>t \<in> set (show_nat (unat (pv_pid p)) # pv_comm p # pv_cmdline p @ (case pv_exe p of None \<Rightarrow> [] | Some e \<Rightarrow> [e])).
            \<exists>a m b. t = a @ m @ b \<and> eq_ignore_ascii_case m s) views))), w2)
    \<and> map pv_pid views = List.map_filter (\<lambda>e. case e of Inr (Some name) \<Rightarrow> parse_u32 name | _ \<Rightarrow> None) es"
proof -
  have e: "(\<lambda>e. case e of Inr (Some name) \<Rightarrow> parse_u32 name | _ \<Rightarrow> None) = entry_pid"
    by (auto simp: entry_pid_def fun_eq_iff split: sum.split option.split)
  have found: "(case pq_q q of None \<Rightarrow> True | Some s \<Rightarrow> process_matches p (to_ascii_lowercase s)) \<longleftrightarrow>
      (case pq_q q of None \<Rightarrow> True | Some s \<Rightarrow>
         \<exists>t \<in> set (show_nat (unat (pv_pid p)) # pv_comm p # pv_cmdline p @ (case pv_exe p of None \<Rightarrow> [] | Some e \<Rightarrow> [e])).
           \<exists>a m b. t = a @ m @ b \<and> eq_ignore_ascii_case m s)" for p
    by (simp only: process_matches_iff search_fields_def)
  have "map pv_pid views = List.map_filter entry_pid es"
    using read_each_pids [of F "List.map_filter entry_pid es" w1] assms(2) e by simp
  moreover have "(case pq_limit q of None \<Rightarrow> 4096 | Some n \<Rightarrow> n) = (case pq_limit q of Some n \<Rightarrow> n | None \<Rightarrow> (4096::nat))"
    by (cases "pq_limit q") simp_all
  ultimately show ?thesis
    using read_processes_eq [OF assms(1) assms(2) [unfolded e]] by (simp only: e found query_limit_def)
qed

definition demo_entries :: "(str + str option) list" where
  "demo_entries = [Inr (Some (show_nat 27)), Inr None, Inl ''gone'', Inr (Some (show_nat 7)), Inr (Some (show_nat 3))]"

definition demo_fs :: "unit proc_fs" where
  "demo_fs = \<lparr>pf_dir = \<lambda>w p. (Inr demo_entries, w), pf_text = \<lambda>w p. (Inl ''gone'', w),
     pf_bytes = \<lambda>w p. (Inl ''gone'', w), pf_link = \<lambda>w p. (Inl ''gone'', w)\<rparr>"

definition demo_view :: "u32 \<Rightarrow> process_view" where
  "demo_view pid = \<lparr>pv_pid = pid, pv_ppid = None, pv_state = None, pv_comm = show_nat (unat pid),
     pv_cmdline = [], pv_exe = None\<rparr>"

theorem processes_selected_witness:
  "read_processes demo_fs \<lparr>pq_q = Some ''7'', pq_limit = None\<rparr> () = (Inr [demo_view 7, demo_view 27], ())
    \<and> read_processes demo_fs \<lparr>pq_q = Some ''7'', pq_limit = Some 1\<rparr> () = (Inr [demo_view 7], ())"
proof -
  let ?name = "\<lambda>e :: str + str option. case e of Inr (Some name) \<Rightarrow> parse_u32 name | _ \<Rightarrow> None"
  have pids: "List.map_filter ?name demo_entries = [27, 7, 3]"
    using parse_u32_show [of 27] parse_u32_show [of 7] parse_u32_show [of 3]
    by (simp add: demo_entries_def List.map_filter_def)
  have "read_process demo_fs pid () = (Some (demo_view pid), ())" for pid
    by (simp add: read_process_def demo_fs_def demo_view_def comm_of_def)
  then have r: "read_each demo_fs (List.map_filter ?name demo_entries) () = ([demo_view 27, demo_view 7, demo_view 3], ())"
    unfolding pids by simp
  have d: "pf_dir demo_fs () ''/proc'' = (Inr demo_entries, ())" by (simp add: demo_fs_def)
  let ?found = "\<lambda>p. \<exists>t \<in> set (show_nat (unat (pv_pid p)) # pv_comm p # pv_cmdline p @ (case pv_exe p of None \<Rightarrow> [] | Some e \<Rightarrow> [e])).
    \<exists>a m b. t = a @ m @ b \<and> eq_ignore_ascii_case m ''7''"
  have f: "?found p \<longleftrightarrow> process_matches p (to_ascii_lowercase ''7'')" for p
    by (simp only: process_matches_iff search_fields_def)
  have "process_matches (demo_view 27) (to_ascii_lowercase ''7'')" "process_matches (demo_view 7) (to_ascii_lowercase ''7'')"
    "\<not> process_matches (demo_view 3) (to_ascii_lowercase ''7'')" by code_simp+
  then have "filter ?found [demo_view 27, demo_view 7, demo_view 3] = [demo_view 27, demo_view 7]"
    by (simp only: f filter.simps if_True if_False)
  moreover have "sort_key (\<lambda>p. unat (pv_pid p)) [demo_view 27, demo_view 7] = [demo_view 7, demo_view 27]"
    by (simp add: demo_view_def)
  ultimately show ?thesis
    using processes_selected [OF d r, of "\<lparr>pq_q = Some ''7'', pq_limit = None\<rparr>"]
      processes_selected [OF d r, of "\<lparr>pq_q = Some ''7'', pq_limit = Some 1\<rparr>"]
    by simp
qed

text \<open>
  The arguments of a process are read back exactly from its \<open>cmdline\<close>, NUL-terminated strings
  of UTF-8, as long as none is empty.
\<close>

lemma cmdline_roundtrip:
  assumes "list_all (\<lambda>a. a \<noteq> [] \<and> 0 \<notin> set (to_bytes a) \<and> utf8_valid (to_bytes a)) args"
  shows "parse_cmdline (concat (map (\<lambda>a. to_bytes a @ [0]) args)) = args"
proof -
  have "list_all (\<lambda>x. 0 \<notin> set x) (map to_bytes args)" using assms by (simp add: list_all_iff)
  from split_on_joined [OF this]
  have "split_on 0 (concat (map (\<lambda>a. to_bytes a @ [0]) args)) = map to_bytes args @ [[]]"
    by (simp add: comp_def)
  moreover have "filter (\<lambda>p. p \<noteq> []) (map to_bytes args) = map to_bytes args"
    using assms by (auto simp: filter_id_conv list_all_iff to_bytes_def)
  ultimately show ?thesis
    using assms by (auto simp: parse_cmdline_def list_all_iff from_utf8_lossy_valid intro!: map_idI)
qed

text \<open>
  A numeric field of \<open>/proc/<pid>/status\<close>, printed by the kernel as \<open>key:<tab>number\<close>, is read
  back from the whole text when no earlier line has that key.
\<close>

lemma status_number_roundtrip:
  assumes "list_all plain_line (pre @ status_line key (show_nat (unat v)) # post)"
    and "list_all (\<lambda>l. strip_prefix (key @ '':'') l = None) pre"
  shows "status_u32 key (status_text (pre @ status_line key (show_nat (unat v)) # post)) = Some v"
  using find_status_line [OF assms]
  by (simp add: status_u32_def trim_tab trim_printing printing_show_nat)

end
