(* ===== verification/Worker_Slots.thy ===== *)
theory Worker_Slots
  imports Prelude Rust_Int
begin

section \<open>Bounded blocking work (src/blocking.rs)\<close>

text \<open>
  \<open>run\<close> takes one of eight permits or refuses, hands the job and the permit to a blocking
  worker, and waits at most three seconds. A job that is late is detached: its permit stays
  taken until the job returns. The first part is the life of the permits as a transition
  system; the second is what one call of \<open>run\<close> returns to its caller. The semaphore of the
  runtime is the number of its free permits.
\<close>

subsection \<open>Permits\<close>

definition MAX_IN_FLIGHT :: nat where
  "MAX_IN_FLIGHT = 8"

definition MAX_DURATION_SECS :: nat where
  "MAX_DURATION_SECS = 3"

datatype phase = Awaited | Detached

record slots =
  sl_permits :: nat
  sl_jobs :: "nat \<rightharpoonup> phase"

definition init_slots :: slots where
  "init_slots = \<lparr>sl_permits = MAX_IN_FLIGHT, sl_jobs = Map.empty\<rparr>"

text \<open>\<open>try_acquire_owned\<close> and \<open>spawn_blocking\<close>; \<open>None\<close> is the refusal.\<close>

definition submit :: "nat \<Rightarrow> slots \<Rightarrow> slots option" where
  "submit j s =
     (if sl_permits s = 0 then None
      else Some (s\<lparr>sl_permits := sl_permits s - 1, sl_jobs := (sl_jobs s)(j \<mapsto> Awaited)\<rparr>))"

text \<open>The closure returns or unwinds: its \<open>_permit\<close> is dropped either way.\<close>

definition job_ends :: "nat \<Rightarrow> slots \<Rightarrow> slots" where
  "job_ends j s = s\<lparr>sl_permits := Suc (sl_permits s), sl_jobs := (sl_jobs s)(j := None)\<rparr>"

text \<open>The deadline passes, or the caller goes away: the job runs on by itself.\<close>

definition detach :: "nat \<Rightarrow> slots \<Rightarrow> slots" where
  "detach j s = s\<lparr>sl_jobs := (sl_jobs s)(j \<mapsto> Detached)\<rparr>"

inductive slot_step :: "slots \<Rightarrow> slots \<Rightarrow> bool" where
  start: "sl_jobs s j = None \<Longrightarrow> submit j s = Some t \<Longrightarrow> slot_step s t"
| refuse: "submit j s = None \<Longrightarrow> slot_step s s"
| finish: "sl_jobs s j = Some ph \<Longrightarrow> slot_step s (job_ends j s)"
| late: "sl_jobs s j = Some Awaited \<Longrightarrow> slot_step s (detach j s)"

inductive_cases slot_stepE: "slot_step s t"

definition slots_inv :: "slots \<Rightarrow> bool" where
  "slots_inv s \<longleftrightarrow> finite (dom (sl_jobs s)) \<and> sl_permits s + card (dom (sl_jobs s)) = MAX_IN_FLIGHT"

lemma slots_inv_init: "slots_inv init_slots"
  by (simp add: slots_inv_def init_slots_def)

lemma submit_inv:
  "slots_inv s \<Longrightarrow> sl_jobs s j = None \<Longrightarrow> submit j s = Some t \<Longrightarrow> slots_inv t"
  by (auto simp: slots_inv_def submit_def domIff split: if_splits)

lemma job_ends_inv: "slots_inv s \<Longrightarrow> sl_jobs s j = Some ph \<Longrightarrow> slots_inv (job_ends j s)"
proof -
  assume "slots_inv s" and "sl_jobs s j = Some ph"
  then have "j \<in> dom (sl_jobs s)" and "finite (dom (sl_jobs s))" by (auto simp: slots_inv_def)
  then have "card (dom (sl_jobs s)) = Suc (card (dom (sl_jobs s) - {j}))"
    by (metis card.remove)
  with \<open>slots_inv s\<close> show ?thesis by (simp add: slots_inv_def job_ends_def)
qed

lemma detach_inv: "slots_inv s \<Longrightarrow> sl_jobs s j = Some ph \<Longrightarrow> slots_inv (detach j s)"
  by (auto simp: slots_inv_def detach_def insert_absorb domI)

lemma slot_step_inv: "slot_step s t \<Longrightarrow> slots_inv s \<Longrightarrow> slots_inv t"
  by (auto elim!: slot_stepE intro: submit_inv job_ends_inv detach_inv)

interpretation slots: invariant_system "\<lambda>s. s = init_slots" slot_step slots_inv
  by unfold_locales (auto simp: slots_inv_init intro: slot_step_inv)

lemma submit_None_iff: "submit j s = None \<longleftrightarrow> sl_permits s = 0"
  by (simp add: submit_def)

lemma slots_full: "slots_inv s \<Longrightarrow> sl_permits s = 0 \<longleftrightarrow> card (dom (sl_jobs s)) = MAX_IN_FLIGHT"
  by (auto simp: slots_inv_def MAX_IN_FLIGHT_def)

subsection \<open>What run returns\<close>

datatype 'e run_error = CapacityExhausted | WorkerFailed str | TimedOut | JobFailed 'e

fun run_error_text :: "('e \<Rightarrow> str) \<Rightarrow> 'e run_error \<Rightarrow> str" where
  "run_error_text f CapacityExhausted = ''blocking operation capacity exhausted''"
| "run_error_text f (WorkerFailed e) = ''blocking worker failed: '' @ e"
| "run_error_text f TimedOut =
     ''blocking operation timed out after '' @ show_nat MAX_DURATION_SECS @ ''s''"
| "run_error_text f (JobFailed e) = f e"

text \<open>
  How the runtime treats a call: no permit is free; the job returns in time; the worker
  panics (in some world \<open>'k\<close>); the deadline passes first, and the job still runs to its end.
\<close>

datatype 'k verdict = No_Permit | In_Time | Panics str 'k | Too_Late

fun run :: "'k verdict \<Rightarrow> ('k \<Rightarrow> ('e + 'a) \<times> 'k) \<Rightarrow> 'k \<Rightarrow> ('e run_error + 'a) \<times> 'k" where
  "run No_Permit job k = (Inl CapacityExhausted, k)"
| "run In_Time job k = (case job k of (r, k') \<Rightarrow> (map_err JobFailed r, k'))"
| "run (Panics e k') job k = (Inl (WorkerFailed e), k')"
| "run Too_Late job k = (Inl TimedOut, snd (job k))"

lemma run_Inr_iff: "run v job k = (Inr x, k') \<longleftrightarrow> v = In_Time \<and> job k = (Inr x, k')"
  by (cases v) (auto simp: map_err_Inr_iff split: prod.splits)

subsection \<open>Properties\<close>

text \<open>
  C32: at most eight jobs are ever in flight, late ones included, whatever the order of submissions,
  deadlines and ends; a job is refused exactly when there are eight, and no permit is lost: free
  permits and jobs in flight always make eight.
\<close>

theorem jobs_bounded:
  assumes "slot_step\<^sup>*\<^sup>* init_slots s"
  shows "card (dom (sl_jobs s)) \<le> 8 \<and> (submit j s = None \<longleftrightarrow> card (dom (sl_jobs s)) = 8)
    \<and> sl_permits s + card (dom (sl_jobs s)) = 8 \<and> finite (dom (sl_jobs s))"
proof -
  have "slots_inv s" using slots.inv_reachable [OF refl assms] .
  then show ?thesis by (auto simp: slots_inv_def submit_None_iff MAX_IN_FLIGHT_def)
qed

theorem jobs_bounded_witness:
  "\<exists>s. submit 1 init_slots = Some s \<and> card (dom (sl_jobs (detach 1 s))) \<le> 8 \<and> submit 2 (detach 1 s) \<noteq> None"
proof -
  let ?s = "\<lparr>sl_permits = 7, sl_jobs = [1 \<mapsto> Awaited]\<rparr>"
  have s: "submit 1 init_slots = Some ?s" by (simp add: submit_def init_slots_def MAX_IN_FLIGHT_def)
  then have "slot_step init_slots ?s" by (rule slot_step.start [rotated]) (simp add: init_slots_def)
  moreover have "slot_step ?s (detach 1 ?s)" by (rule slot_step.late) simp
  ultimately have "slot_step\<^sup>*\<^sup>* init_slots (detach 1 ?s)" by (meson r_into_rtranclp rtranclp.rtrancl_into_rtrancl)
  from jobs_bounded [OF this, of 2] s show ?thesis by (intro exI [of _ ?s]) (simp add: detach_def)
qed

end
