(* ===== verification/Http.thy ===== *)
theory Http
  imports Prelude
begin

section \<open>Responses\<close>

text \<open>
  A response is a status, headers and a body; serialising a body to JSON is left to the
  libraries, so the body keeps its typed value.
\<close>

datatype 'b body = Json 'b | Error_Body str | Empty_Body

record 'b response =
  status :: nat
  headers :: "(str \<times> str) list"
  body :: "'b body"

definition OK :: nat where "OK = 200"
definition CREATED :: nat where "CREATED = 201"
definition NO_CONTENT :: nat where "NO_CONTENT = 204"
definition BAD_REQUEST :: nat where "BAD_REQUEST = 400"
definition NOT_FOUND :: nat where "NOT_FOUND = 404"
definition INTERNAL_SERVER_ERROR :: nat where "INTERNAL_SERVER_ERROR = 500"
definition BAD_GATEWAY :: nat where "BAD_GATEWAY = 502"
definition SERVICE_UNAVAILABLE :: nat where "SERVICE_UNAVAILABLE = 503"

lemmas status_defs = OK_def CREATED_def NO_CONTENT_def BAD_REQUEST_def NOT_FOUND_def
  INTERNAL_SERVER_ERROR_def BAD_GATEWAY_def SERVICE_UNAVAILABLE_def

definition error_response :: "nat \<Rightarrow> str \<Rightarrow> 'b response" where
  "error_response st e = \<lparr>status = st, headers = [], body = Error_Body e\<rparr>"

definition json_response :: "'b \<Rightarrow> 'b response" where
  "json_response b = \<lparr>status = OK, headers = [], body = Json b\<rparr>"

lemma error_response_simps [simp]:
  "status (error_response st e) = st"
  "body (error_response st e) = Error_Body e"
  by (simp_all add: error_response_def)

end
