(* ===== verification/Memory_Api.thy ===== *)
theory Memory_Api
  imports Demo_Kernel Worker_Slots Http
begin

section \<open>The memory HTTP API (src/memory\_api.rs)\<close>

text \<open>
  Validation of requests, decoding of hexadecimal bytes, the hex view of a read, and the two
  handlers, which run the driver calls on a blocking worker. Extraction of the request from
  the HTTP message is done by the libraries: a handler gets the request or the text (and
  status) of the rejection.
\<close>

definition MAX_BYTES :: nat where
  "MAX_BYTES = 4096"

record read_request =
  rq_pid :: u32
  rq_addr :: str
  rq_size :: usize

definition default_size :: usize where
  "default_size = 256"

record write_request =
  wq_pid :: u32
  wq_addr :: str
  wq_data :: str

record memory_row =
  row_addr :: str
  row_hex :: str
  row_ascii :: str

record read_response =
  rr_pid :: u32
  rr_addr :: str
  rr_size :: nat
  rr_next_addr :: "str option"
  rr_bytes :: "u8 list"
  rr_rows :: "memory_row list"

record write_response =
  wr_pid :: u32
  wr_addr :: str
  wr_written :: nat

datatype request_error = BadPid | BadSize | BadAddr | BadAddrInt int_error | RangeOverflow | BadData

fun request_error_text :: "request_error \<Rightarrow> str" where
  "request_error_text BadPid = ''pid must be between 1 and 2147483647''"
| "request_error_text BadSize = ''size must be between 1 and '' @ show_nat MAX_BYTES @ '' bytes''"
| "request_error_text BadAddr = ''addr must be a hexadecimal string of at most 16 digits''"
| "request_error_text (BadAddrInt e) = int_error_text e"
| "request_error_text RangeOverflow = ''address range overflows u64''"
| "request_error_text BadData =
     ''data must contain 1..='' @ show_nat MAX_BYTES @ '' hex byte pairs, optionally separated by whitespace''"

subsection \<open>validate\<close>

definition strip_hex_prefix :: "str \<Rightarrow> str" where
  "strip_hex_prefix text =
     (case (case strip_prefix ''0x'' text of Some t \<Rightarrow> Some t | None \<Rightarrow> strip_prefix ''0X'' text) of
        Some t \<Rightarrow> t | None \<Rightarrow> text)"

definition validate :: "u32 \<Rightarrow> str \<Rightarrow> usize \<Rightarrow> request_error + u64" where
  "validate pid addr sz =
     (if pid = 0 \<or> pid > 0x7fffffff then Inl BadPid
      else if \<not> (1 \<le> unat sz \<and> unat sz \<le> MAX_BYTES) then Inl BadSize
      else
        let text = strip_hex_prefix (trim addr) in
        if text = [] \<or> length text > 16 \<or> \<not> list_all is_hexdigit text then Inl BadAddr
        else and_then (map_err BadAddrInt (u64_from_radix 16 text)) (\<lambda>a.
          (case checked_add a (sz - 1) of None \<Rightarrow> Inl RangeOverflow | Some _ \<Rightarrow> Inr a)))"

subsection \<open>decode\_hex\<close>

definition nibble :: "char \<Rightarrow> u8" where
  "nibble b =
     (if is_digit b then of_nat (byte b) - of_nat (byte (CHR ''0''))
      else of_nat (byte (lower_char b)) - of_nat (byte (CHR ''a'')) + 10)"

definition decode_hex :: "str \<Rightarrow> request_error + u8 list" where
  "decode_hex text =
     (let digits = filter (\<lambda>b. \<not> is_ascii_ws b) text in
      if digits = [] \<or> length digits > MAX_BYTES * 2 \<or> length digits mod 2 \<noteq> 0
         \<or> \<not> list_all is_hexdigit digits
      then Inl BadData
      else Inr (map (\<lambda>pair. or (push_bit 4 (nibble (pair ! 0))) (nibble (pair ! 1))) (chunks 2 digits)))"

subsection \<open>format\_read\<close>

definition ascii_char :: "u8 \<Rightarrow> char" where
  "ascii_char b = (if 0x20 \<le> b \<and> b \<le> 0x7e then char_of (unat b) else CHR ''.'')"

definition format_row :: "u64 \<Rightarrow> nat \<Rightarrow> u8 list \<Rightarrow> memory_row" where
  "format_row addr i bytes =
     \<lparr>row_addr = hex16 (addr + of_nat (i * 16)), row_hex = join '' '' (map hex2 bytes),
      row_ascii = map ascii_char bytes\<rparr>"

definition format_read :: "u32 \<Rightarrow> u64 \<Rightarrow> u8 list \<Rightarrow> read_response" where
  "format_read pid addr data =
     \<lparr>rr_pid = pid, rr_addr = hex16 addr, rr_size = length data,
      rr_next_addr = map_option hex16 (checked_add addr (of_nat (length data))),
      rr_bytes = data,
      rr_rows = map (\<lambda>(i, bytes). format_row addr i bytes) (enumerate 0 (chunks 16 data))\<rparr>"

subsection \<open>The handlers\<close>

definition cache_control :: "str \<times> str" where
  "cache_control = (''cache-control'', ''no-store'')"

text \<open>\<open>Driver::open()?.read_memory(..)?\<close>: the driver is dropped whether the call fails or not.\<close>

definition read_job ::
  "sys_bindings \<Rightarrow> 'k kernel \<Rightarrow> u64 \<Rightarrow> u32 \<Rightarrow> u64 \<Rightarrow> nat \<Rightarrow> 'k \<Rightarrow> (lk_error + read_response) \<times> 'k" where
  "read_job sys K ptr pid addr n k =
     (case driver_open sys K k of
        (Inl e, k1) \<Rightarrow> (Inl e, k1)
      | (Inr fd, k1) \<Rightarrow>
          (case driver_read_memory K ptr fd pid addr n k1 of
             (r, k2) \<Rightarrow> (and_then r (\<lambda>data. Inr (format_read pid addr data)), driver_drop K fd k2)))"

definition write_job ::
  "sys_bindings \<Rightarrow> 'k kernel \<Rightarrow> u64 \<Rightarrow> u32 \<Rightarrow> u64 \<Rightarrow> u8 list \<Rightarrow> 'k \<Rightarrow> (lk_error + write_response) \<times> 'k" where
  "write_job sys K ptr pid addr data k =
     (case driver_open sys K k of
        (Inl e, k1) \<Rightarrow> (Inl e, k1)
      | (Inr fd, k1) \<Rightarrow>
          (case driver_write_memory K ptr fd pid addr data k1 of
             (r, k2) \<Rightarrow>
               (and_then r (\<lambda>_. Inr \<lparr>wr_pid = pid, wr_addr = hex16 addr, wr_written = length data\<rparr>),
                driver_drop K fd k2)))"

definition finish_memory :: "(lk_error run_error + 'b) \<times> 'k \<Rightarrow> 'b response \<times> 'k" where
  "finish_memory res =
     (case res of
        (Inr b, k) \<Rightarrow> (\<lparr>status = OK, headers = [cache_control], body = Json b\<rparr>, k)
      | (Inl e, k) \<Rightarrow> (error_response BAD_GATEWAY (run_error_text lk_error_text e), k))"

definition read_memory ::
  "sys_bindings \<Rightarrow> 'k kernel \<Rightarrow> u64 \<Rightarrow> 'k verdict \<Rightarrow> str + read_request \<Rightarrow> 'k \<Rightarrow> read_response response \<times> 'k" where
  "read_memory sys K ptr v query k =
     (case query of
        Inl text \<Rightarrow> (error_response BAD_REQUEST text, k)
      | Inr rq \<Rightarrow>
          (case validate (rq_pid rq) (rq_addr rq) (rq_size rq) of
             Inl e \<Rightarrow> (error_response BAD_REQUEST (request_error_text e), k)
           | Inr addr \<Rightarrow>
               finish_memory (run v (read_job sys K ptr (rq_pid rq) addr (unat (rq_size rq))) k)))"

definition write_memory ::
  "sys_bindings \<Rightarrow> 'k kernel \<Rightarrow> u64 \<Rightarrow> 'k verdict \<Rightarrow> (nat \<times> str) + write_request \<Rightarrow> 'k
    \<Rightarrow> write_response response \<times> 'k" where
  "write_memory sys K ptr v payload k =
     (case payload of
        Inl (st, text) \<Rightarrow> (error_response st text, k)
      | Inr rq \<Rightarrow>
          (case decode_hex (wq_data rq) of
             Inl e \<Rightarrow> (error_response BAD_REQUEST (request_error_text e), k)
           | Inr data \<Rightarrow>
               (case validate (wq_pid rq) (wq_addr rq) (of_nat (length data)) of
                  Inl e \<Rightarrow> (error_response BAD_REQUEST (request_error_text e), k)
                | Inr addr \<Rightarrow> finish_memory (run v (write_job sys K ptr (wq_pid rq) addr data) k))))"

subsection \<open>Validation\<close>

lemma validate_Inr_iff:
  "validate pid addr sz = Inr a \<longleftrightarrow>
     (let text = strip_hex_prefix (trim addr) in
        0 < unat pid \<and> unat pid \<le> 2147483647 \<and> 1 \<le> unat sz \<and> unat sz \<le> 4096
        \<and> text \<noteq> [] \<and> length text \<le> 16 \<and> num_val 16 0 text = Some (unat a)
        \<and> unat a + unat sz \<le> 2 ^ 64)"
proof (cases "0 < unat pid \<and> unat pid \<le> 2147483647 \<and> 1 \<le> unat sz \<and> unat sz \<le> 4096")
  case True
  define tx where "tx = strip_hex_prefix (trim addr)"
  have pid: "pid \<noteq> 0" "\<not> pid > 0x7fffffff"
    using True by (auto simp: word_less_nat_alt unat_eq_0)
  have sz: "unat (sz - 1) = unat sz - 1"
    using True unat_sub [of 1 sz] by (simp add: word_le_nat_alt)
  have fits: "checked_add a (sz - 1) \<noteq> None \<longleftrightarrow> unat a + unat sz \<le> 2 ^ 64" for a :: u64
    using True sz by (simp add: checked_add_None_iff del: not_None_eq) arith
  show ?thesis
  proof (cases "tx = [] \<or> length tx > 16 \<or> \<not> list_all is_hexdigit tx")
    case bad: True
    then have "\<not> (tx \<noteq> [] \<and> length tx \<le> 16 \<and> num_val 16 0 tx = Some (unat a))"
      using num_val_hexdigits [of 0 tx] by auto
    with bad True pid show ?thesis
      by (auto simp: validate_def Let_def MAX_BYTES_def simp flip: tx_def)
  next
    case False
    then have "u64_from_radix 16 tx = Inr a' \<longleftrightarrow> num_val 16 0 tx = Some (unat a')" for a'
      by (intro u64_hex_digits) auto
    with False True pid fits show ?thesis
      by (auto simp: validate_def Let_def MAX_BYTES_def res_simps simp flip: tx_def
          split: option.splits)
  qed
next
  case False
  then show ?thesis
    by (auto simp: validate_def Let_def MAX_BYTES_def word_less_nat_alt unat_eq_0)
qed

lemma strip_hex_prefix_hex16: "strip_hex_prefix (trim (hex16 a)) = pad 16 (show_radix 16 (unat a))"
proof -
  have "printing (hex16 a)"
    by (simp add: hex16_def hexdigits_printing pad_hexdigits byte_def)
  then show ?thesis
    by (simp add: trim_printing strip_hex_prefix_def) (simp add: hex16_def strip_prefix_def)
qed

lemma validate_hex16:
  "validate pid (hex16 a) sz = Inr b \<longleftrightarrow>
     b = a \<and> 0 < unat pid \<and> unat pid \<le> 2147483647 \<and> 1 \<le> unat sz \<and> unat sz \<le> 4096
     \<and> unat a + unat sz \<le> 2 ^ 64"
  by (auto simp: validate_Inr_iff strip_hex_prefix_hex16 Let_def num_val_pad length_pad length_hex_u64
      word_unat_eq_iff)


subsection \<open>Hexadecimal bytes\<close>

lemma nibble_digit:
  assumes "digit_val 16 c = Some d"
  shows "nibble c = of_nat d \<and> digit_char d = lower_char c"
proof -
  let ?x = "byte c"
  consider "48 \<le> ?x" "?x \<le> 57" "d = ?x - 48" | "65 \<le> ?x" "?x \<le> 70" "d = ?x - 55"
    | "97 \<le> ?x" "?x \<le> 102" "d = ?x - 87"
    using assms by (auto simp: digit_val_def Let_def split: if_splits)
  then show ?thesis
  proof cases
    case 1
    then have "lower_char c = c" by (simp add: lower_char_def class_defs)
    moreover have "(of_nat ?x :: u8) - of_nat (byte (CHR ''0'')) = of_nat (?x - 48)"
      using 1 by (simp add: byte_def of_nat_diff)
    moreover have "d < 10" and "d + 48 = ?x" using 1 by arith+
    then have "digit_char d = char_of ?x" by (simp add: digit_char_def)
    ultimately show ?thesis using 1 by (simp add: nibble_def class_defs)
  next
    case 2
    then have lc: "byte (lower_char c) = ?x + 32" by (simp add: byte_lower_char class_defs)
    have "(of_nat (?x + 32) :: u8) - of_nat (byte (CHR ''a'')) + 10 = of_nat (?x - 55)"
      using 2 by (simp add: byte_def of_nat_diff)
    moreover have "digit_char d = char_of (?x + 32)" using 2 by (simp add: digit_char_def)
    ultimately show ?thesis using 2 lc
      by (simp add: nibble_def class_defs) (metis char_of_byte lc)
  next
    case 3
    then have lc: "lower_char c = c" by (simp add: lower_char_def class_defs)
    have "(of_nat ?x :: u8) - of_nat (byte (CHR ''a'')) + 10 = of_nat (?x - 87)"
      using 3 by (simp add: byte_def of_nat_diff)
    moreover have "\<not> d < 10" and "d + 87 = ?x" using 3 by arith+
    then have "digit_char d = char_of ?x" by (simp add: digit_char_def)
    ultimately show ?thesis using 3 lc by (simp add: nibble_def class_defs)
  qed
qed

lemma unat_pair: "i < 16 \<Longrightarrow> j < 16 \<Longrightarrow>
  unat (or (push_bit 4 (of_nat i :: u8)) (of_nat j)) = 16 * i + j"
proof -
  assume i: "i < 16" and j: "j < 16"
  have "and (push_bit 4 (of_nat i :: u8)) (of_nat j) = 0"
  proof (rule bit_word_eqI)
    fix n assume "n < LENGTH(8)"
    have "\<not> bit j n" if "4 \<le> n"
    proof -
      have "j < 2 ^ n" using j that power_increasing [of 4 n "2::nat"] by simp
      then show ?thesis by (simp add: bit_iff_odd)
    qed
    then show "bit (and (push_bit 4 (of_nat i :: u8)) (of_nat j)) n = bit (0 :: u8) n"
      by (auto simp: bit_simps)
  qed
  then have "or (push_bit 4 (of_nat i :: u8)) (of_nat j) = push_bit 4 (of_nat i) + of_nat j"
    by (simp add: disjunctive_add_eq_or)
  also have "\<dots> = of_nat (16 * i + j)" by (simp add: push_bit_eq_mult)
  finally have "or (push_bit 4 (of_nat i :: u8)) (of_nat j) = of_nat (16 * i + j)" .
  moreover have "unat (of_nat (16 * i + j) :: u8) = 16 * i + j"
    using i j by (simp only: unat_of_nat take_bit_nat_def) simp
  ultimately show ?thesis by (simp only:)
qed

lemma hex2_digits: "hex2 b = [digit_char (unat b div 16), digit_char (unat b mod 16)]"
proof -
  let ?n = "unat b"
  have lt: "?n div 16 < 16" using unat_u8_lt [of b] by simp
  show ?thesis
  proof (cases "?n < 16")
    case True
    then have "show_radix 16 ?n = [digit_char ?n]" by (simp add: show_radix.simps)
    moreover have "digit_char 0 = CHR ''0''" by code_simp
    ultimately show ?thesis using True by (simp add: hex2_def pad_def)
  next
    case False
    with lt have "show_radix 16 ?n = [digit_char (?n div 16), digit_char (?n mod 16)]"
      by (simp add: show_radix.simps [of 16 ?n] show_radix.simps [of 16 "?n div 16"])
    then show ?thesis by (simp add: hex2_def pad_def)
  qed
qed

text \<open>Two hexadecimal digits and the byte they name.\<close>

lemma hex2_nibbles:
  assumes "is_hexdigit a" and "is_hexdigit b"
  shows "hex2 (or (push_bit 4 (nibble a)) (nibble b)) = [lower_char a, lower_char b]"
proof -
  obtain i j where i: "digit_val 16 a = Some i" and j: "digit_val 16 b = Some j"
    using assms by (auto simp flip: digit_val_16_iff)
  note lt = digit_val_lt [OF i] digit_val_lt [OF j]
  note d = nibble_digit [OF i] nibble_digit [OF j]
  show ?thesis using lt d by (simp add: hex2_digits unat_pair)
qed

lemma is_hexdigit_lower: "is_hexdigit (lower_char c) \<longleftrightarrow> is_hexdigit c"
  by (simp add: digit_val_lower flip: digit_val_16_iff)

definition hex_pair :: "str \<Rightarrow> u8" where
  "hex_pair pair = or (push_bit 4 (nibble (pair ! 0))) (nibble (pair ! 1))"

lemma hex_pairs:
  assumes "list_all is_hexdigit ds" and "even (length ds)"
  shows "concat (map hex2 (map hex_pair (chunks 2 ds))) = to_ascii_lowercase ds
    \<and> length (chunks 2 ds) = length ds div 2"
  using assms
proof (induction ds rule: induct_list012)
  case (3 x y zs)
  then show ?case
    by (simp add: chunks_step hex_pair_def hex2_nibbles to_ascii_lowercase_def)
qed (simp_all add: to_ascii_lowercase_def)

lemma decode_hex_Inr_iff:
  "decode_hex t = Inr bs \<longleftrightarrow>
     1 \<le> length bs \<and> length bs \<le> 4096 \<and>
     to_ascii_lowercase (filter (\<lambda>c. \<not> is_ascii_ws c) t) = concat (map hex2 bs)"
proof -
  define ds where "ds = filter (\<lambda>c. \<not> is_ascii_ws c) t"
  let ?ok = "ds \<noteq> [] \<and> length ds \<le> 8192 \<and> even (length ds) \<and> list_all is_hexdigit ds"
  have dec: "decode_hex t = (if ?ok then Inr (map hex_pair (chunks 2 ds)) else Inl BadData)"
    by (auto simp: decode_hex_def Let_def MAX_BYTES_def hex_pair_def even_iff_mod_2_eq_zero simp flip: ds_def)
  show ?thesis
  proof
    assume "decode_hex t = Inr bs"
    then have ok: ?ok and bs: "bs = map hex_pair (chunks 2 ds)" by (auto simp: dec split: if_splits)
    then have "concat (map hex2 bs) = to_ascii_lowercase ds" and "length bs = length ds div 2"
      using hex_pairs [of ds] by simp_all
    with ok show "1 \<le> length bs \<and> length bs \<le> 4096 \<and>
      to_ascii_lowercase (filter (\<lambda>c. \<not> is_ascii_ws c) t) = concat (map hex2 bs)"
      unfolding ds_def [symmetric] by (cases ds rule: remdups_adj.cases) auto
  next
    assume r: "1 \<le> length bs \<and> length bs \<le> 4096 \<and>
      to_ascii_lowercase (filter (\<lambda>c. \<not> is_ascii_ws c) t) = concat (map hex2 bs)"
    then have low: "to_ascii_lowercase ds = concat (map hex2 bs)" by (simp add: ds_def)
    then have len: "length ds = 2 * length bs"
      by (metis hex_byte.length_concat_enc length_to_ascii_lowercase)
    have "list_all is_hexdigit (concat (map hex2 bs))"
      using hex2_hexdigits by (auto simp: list_all_iff)
    then have "list_all is_hexdigit ds"
      by (simp add: is_hexdigit_lower list.pred_map comp_def to_ascii_lowercase_def flip: low)
    with len r have ok: ?ok by auto
    then have "concat (map hex2 (map hex_pair (chunks 2 ds))) = concat (map hex2 bs)"
      and "length (map hex_pair (chunks 2 ds)) = length bs"
      using hex_pairs [of ds] low len by simp_all
    then have "map hex_pair (chunks 2 ds) = bs"
      using hex_byte.concat_enc_inject by blast
    with dec ok show "decode_hex t = Inr bs" by simp
  qed
qed


subsection \<open>The view of a read\<close>

lemma filter_join: "filter P (join sep xs) = join (filter P sep) (map (filter P) xs)"
  by (induction sep xs rule: join.induct) simp_all

lemma join_Nil: "join [] xs = concat xs"
  by (induction "[] :: 'a list" xs rule: join.induct) simp_all

lemma concat_map_concat: "concat (map f (concat xss)) = concat (map (\<lambda>xs. concat (map f xs)) xss)"
  by (induction xss) simp_all

lemma hex2_not_ws: "filter (\<lambda>c. \<not> is_ascii_ws c) (hex2 b) = hex2 b"
  using hex2_hexdigits [of b] by (auto simp: filter_id_conv list_all_iff is_hexdigit_not_ws)

lemma hex2_lower: "to_ascii_lowercase (hex2 b) = hex2 b"
proof -
  have "lower_char (digit_char d) = digit_char d" if "d < 16" for d
    using that by (auto simp: byte_digit_char is_upper_def intro!: lower_char_not_upper
        split: if_splits)
  moreover have "unat b div 16 < 16" using unat_u8_lt [of b] by simp
  ultimately show ?thesis by (simp add: hex2_digits to_ascii_lowercase_def)
qed

lemma to_ascii_lowercase_concat: "to_ascii_lowercase (concat xs) = concat (map to_ascii_lowercase xs)"
  by (induction xs) (simp_all add: to_ascii_lowercase_def)

text \<open>Bytes printed with single spaces between them, in one line or in several.\<close>

lemma decode_hex_rows:
  assumes "1 \<le> length (concat bss)" and "length (concat bss) \<le> 4096"
  shows "decode_hex (join '' '' (map (\<lambda>bs. join '' '' (map hex2 bs)) bss)) = Inr (concat bss)"
proof -
  have sp: "is_ascii_ws (CHR '' '')" by (simp add: is_ascii_ws_def byte_def)
  have "filter (\<lambda>c. \<not> is_ascii_ws c) (join '' '' (map (\<lambda>bs. join '' '' (map hex2 bs)) bss))
      = concat (map hex2 (concat bss))"
    by (simp add: filter_join sp join_Nil comp_def hex2_not_ws concat_map_concat)
  then show ?thesis
    using assms by (simp add: decode_hex_Inr_iff to_ascii_lowercase_concat comp_def hex2_lower)
qed

lemma decode_hex_join:
  "1 \<le> length bs \<Longrightarrow> length bs \<le> 4096 \<Longrightarrow> decode_hex (join '' '' (map hex2 bs)) = Inr bs"
  using decode_hex_rows [of "[bs]"] by simp

lemma length_rows: "length (rr_rows (format_read pid a data)) = (length data + 15) div 16"
  by (simp add: format_read_def length_chunks)

lemma rows_nth:
  "i < length (rr_rows (format_read pid a data)) \<Longrightarrow>
     rr_rows (format_read pid a data) ! i = format_row a i (take 16 (drop (16 * i) data))"
  by (simp add: format_read_def nth_enumerate_eq nth_chunks mult.commute)

lemma row_hexes: "map row_hex (rr_rows (format_read pid a data))
    = map (\<lambda>bs. join '' '' (map hex2 bs)) (chunks 16 data)"
  by (rule nth_equalityI) (simp_all add: format_read_def format_row_def nth_enumerate_eq)

lemma unat_add_offset:
  fixes a :: u64
  shows "unat a + n < 2 ^ 64 \<Longrightarrow> unat (a + of_nat n) = unat a + n"
  by (simp add: unat_word_ariths unat_of_nat_u64)


subsection \<open>What the handlers answer\<close>

lemma finish_memory_ok:
  "finish_memory res = (r, k') \<Longrightarrow> status r = OK \<longleftrightarrow> (\<exists>b. fst res = Inr b \<and> body r = Json b)"
  by (auto simp: finish_memory_def status_defs split: prod.splits sum.splits)

lemma finish_memory_eq:
  "finish_memory (x, k) = (r, k') \<longleftrightarrow>
     k' = k \<and> (case x of Inr b \<Rightarrow> r = \<lparr>status = OK, headers = [cache_control], body = Json b\<rparr>
       | Inl e \<Rightarrow> r = error_response BAD_GATEWAY (run_error_text lk_error_text e))"
  by (auto simp: finish_memory_def split: sum.splits)

lemma read_job_ok:
  "read_job sys K ptr pid a n k = (Inr x, k') \<longleftrightarrow>
     (\<exists>fd k1 data k2. driver_open sys K k = (Inr fd, k1)
        \<and> driver_read_memory K ptr fd pid a n k1 = (Inr data, k2)
        \<and> x = format_read pid a data \<and> k' = driver_drop K fd k2)"
  by (auto simp: read_job_def res_simps split: prod.splits sum.splits)

lemma write_job_ok:
  "write_job sys K ptr pid a data k = (Inr x, k') \<longleftrightarrow>
     (\<exists>fd k1 k2. driver_open sys K k = (Inr fd, k1)
        \<and> driver_write_memory K ptr fd pid a data k1 = (Inr (), k2)
        \<and> x = \<lparr>wr_pid = pid, wr_addr = hex16 a, wr_written = length data\<rparr>
        \<and> k' = driver_drop K fd k2)"
  by (auto simp: write_job_def res_simps split: prod.splits sum.splits)

lemma driver_read_fds:
  "fd_laws K fds \<Longrightarrow> driver_read_memory K ptr fd pid a n k = (r, k') \<Longrightarrow> fds k' = fds k"
  by (auto simp: driver_read_memory_def split: prod.splits dest: driver_io_fds [rotated 2])

lemma driver_write_fds:
  "fd_laws K fds \<Longrightarrow> driver_write_memory K ptr fd pid a data k = (r, k') \<Longrightarrow> fds k' = fds k"
  by (auto simp: driver_write_memory_def split: prod.splits dest: driver_io_fds [rotated 2])

lemma read_job_fds:
  assumes "fd_laws K fds" and "kernel_sane K"
  shows "fds (snd (read_job sys K ptr pid a n k)) = fds k"
proof -
  obtain r k1 where o: "driver_open sys K k = (r, k1)" by fastforce
  note fo = driver_open_fds [OF assms o]
  show ?thesis
  proof (cases r)
    case (Inl e)
    with o fo show ?thesis by (simp add: read_job_def)
  next
    case (Inr fd)
    obtain d k2 where d: "driver_read_memory K ptr fd pid a n k1 = (d, k2)" by fastforce
    with o Inr have "snd (read_job sys K ptr pid a n k) = driver_drop K fd k2"
      by (simp add: read_job_def)
    with driver_read_fds [OF assms(1) d] fo Inr fd_laws_close [OF assms(1), of fd k2] show ?thesis
      by (simp add: driver_drop_def)
  qed
qed

lemma write_job_fds:
  assumes "fd_laws K fds" and "kernel_sane K"
  shows "fds (snd (write_job sys K ptr pid a data k)) = fds k"
proof -
  obtain r k1 where o: "driver_open sys K k = (r, k1)" by fastforce
  note fo = driver_open_fds [OF assms o]
  show ?thesis
  proof (cases r)
    case (Inl e)
    with o fo show ?thesis by (simp add: write_job_def)
  next
    case (Inr fd)
    obtain d k2 where d: "driver_write_memory K ptr fd pid a data k1 = (d, k2)" by fastforce
    with o Inr have "snd (write_job sys K ptr pid a data k) = driver_drop K fd k2"
      by (simp add: write_job_def)
    with driver_write_fds [OF assms(1) d] fo Inr fd_laws_close [OF assms(1), of fd k2] show ?thesis
      by (simp add: driver_drop_def)
  qed
qed

definition not_panic :: "'k verdict \<Rightarrow> bool" where
  "not_panic v = (case v of Panics _ _ \<Rightarrow> False | _ \<Rightarrow> True)"

lemma run_frame:
  assumes "f (snd (job k)) = f k" and "not_panic v"
  shows "f (snd (run v job k)) = f k"
  using assms by (cases v) (auto simp: not_panic_def split: prod.splits)

lemma snd_finish_memory [simp]: "snd (finish_memory res) = snd res"
  by (simp add: finish_memory_def split: prod.splits sum.splits)

lemma finish_run_ok:
  "finish_memory (run v job k) = (r, k') \<and> status r = OK \<longleftrightarrow>
     v = In_Time \<and> (\<exists>x. job k = (Inr x, k')
       \<and> r = \<lparr>status = OK, headers = [cache_control], body = Json x\<rparr>)"
proof (cases "run v job k")
  case (Pair x k2)
  show ?thesis
  proof (cases x)
    case (Inr b)
    with Pair have "run v job k = (Inr b, k2)" by simp
    then show ?thesis by (auto simp: run_Inr_iff finish_memory_def)
  next
    case (Inl e)
    with Pair have "\<And>b k3. run v job k \<noteq> (Inr b, k3)" by simp
    then have "\<not> (v = In_Time \<and> job k = (Inr b, k'))" for b by (simp add: run_Inr_iff)
    with Inl Pair show ?thesis by (auto simp: finish_memory_def status_defs)
  qed
qed

lemmas finish_run_okD = conjI [THEN finish_run_ok [THEN iffD1]]

lemma error_status: "OK \<noteq> BAD_REQUEST" "BAD_REQUEST \<noteq> OK" "BAD_GATEWAY \<noteq> OK" "BAD_GATEWAY \<noteq> BAD_REQUEST"
  by (simp_all add: status_defs)

lemma read_memory_okD:
  assumes "kernel_sane K" and "read_memory sys K ptr v query k = (r, k')" and "status r = OK"
  shows "\<exists>rq a fd k1 data k2. query = Inr rq \<and> validate (rq_pid rq) (rq_addr rq) (rq_size rq) = Inr a
      \<and> driver_open sys K k = (Inr fd, k1)
      \<and> driver_read_memory K ptr fd (rq_pid rq) a (unat (rq_size rq)) k1 = (Inr data, k2)
      \<and> length data = unat (rq_size rq) \<and> k' = driver_drop K fd k2
      \<and> r = \<lparr>status = OK, headers = [cache_control], body = Json (format_read (rq_pid rq) a data)\<rparr>"
proof -
  from assms(2,3) obtain rq a where q: "query = Inr rq" "validate (rq_pid rq) (rq_addr rq) (rq_size rq) = Inr a"
    and "finish_memory (run v (read_job sys K ptr (rq_pid rq) a (unat (rq_size rq))) k) = (r, k')"
    by (auto simp: read_memory_def error_status split: sum.splits)
  from finish_run_okD [OF this(3) assms(3)] obtain x
    where "read_job sys K ptr (rq_pid rq) a (unat (rq_size rq)) k = (Inr x, k')"
      and "r = \<lparr>status = OK, headers = [cache_control], body = Json x\<rparr>" by blast
  with q driver_read_length [OF assms(1)] show ?thesis unfolding read_job_ok by blast
qed

lemma write_memory_okD:
  assumes "\<forall>st e. payload = Inl (st, e) \<longrightarrow> st \<noteq> OK"
    and "write_memory sys K ptr v payload k = (r, k')" and "status r = OK"
  shows "\<exists>rq data a fd k1 k2. payload = Inr rq \<and> decode_hex (wq_data rq) = Inr data
      \<and> validate (wq_pid rq) (wq_addr rq) (of_nat (length data)) = Inr a
      \<and> driver_open sys K k = (Inr fd, k1)
      \<and> driver_write_memory K ptr fd (wq_pid rq) a data k1 = (Inr (), k2) \<and> k' = driver_drop K fd k2
      \<and> r = \<lparr>status = OK, headers = [cache_control],
            body = Json \<lparr>wr_pid = wq_pid rq, wr_addr = hex16 a, wr_written = length data\<rparr>\<rparr>"
proof -
  from assms obtain rq data a where q: "payload = Inr rq" "decode_hex (wq_data rq) = Inr data"
      "validate (wq_pid rq) (wq_addr rq) (of_nat (length data)) = Inr a"
    and "finish_memory (run v (write_job sys K ptr (wq_pid rq) a data) k) = (r, k')"
    by (auto simp: write_memory_def error_status split: sum.splits)
  from finish_run_okD [OF this(4) assms(3)] obtain x
    where "write_job sys K ptr (wq_pid rq) a data k = (Inr x, k')"
      and "r = \<lparr>status = OK, headers = [cache_control], body = Json x\<rparr>" by blast
  with q show ?thesis unfolding write_job_ok by blast
qed

text \<open>The driver calls of the handlers, down to the request the kernel gets.\<close>

lemma driver_read_ok_iff:
  "(\<exists>data. driver_read_memory K ptr fd pid a n k = (Inr data, k2)) \<longleftrightarrow>
     (\<exists>reply. k_ioctl K fd 601 (Memory \<lparr>mm_pid = pid, mm_res = 0, mm_addr = a, mm_buffer = ptr, mm_size = of_nat n\<rparr>)
        (Byte_Buffer (replicate n 0)) k = (reply, k2) \<and> 0 \<le> sint (io_rc reply))"
  by (auto simp: driver_read_memory_def driver_io_def READ_def res_simps split: prod.splits if_splits)

lemma driver_write_ok_iff:
  "driver_write_memory K ptr fd pid a data k = (Inr (), k2) \<longleftrightarrow>
     (\<exists>reply. k_ioctl K fd 602 (Memory \<lparr>mm_pid = pid, mm_res = 0, mm_addr = a, mm_buffer = ptr, mm_size = of_nat (length data)\<rparr>)
        (Byte_Buffer data) k = (reply, k2) \<and> 0 \<le> sint (io_rc reply))"
  by (auto simp: driver_write_memory_def driver_io_def WRITE_def res_simps split: prod.splits if_splits)

lemma finish_in_time:
  "finish_memory (run In_Time job k) = (case job k of
     (Inr b, k') \<Rightarrow> (\<lparr>status = OK, headers = [cache_control], body = Json b\<rparr>, k')
   | (Inl e, k') \<Rightarrow> (error_response BAD_GATEWAY (lk_error_text e), k'))"
  by (auto simp: finish_memory_def map_err_def split: prod.splits sum.splits)

lemma finish_in_time_status:
  "status (fst (finish_memory (run In_Time job k))) = (if \<exists>b k'. job k = (Inr b, k') then OK else BAD_GATEWAY)"
  unfolding finish_in_time by (auto split: prod.splits sum.splits)

subsection \<open>The handlers on the demonstration kernel\<close>

lemma demo_read_memory:
  "1 \<le> unat sz \<Longrightarrow> unat sz \<le> 4096 \<Longrightarrow> unat a + unat sz \<le> 2 ^ 64 \<Longrightarrow> dk_fds k = [] \<Longrightarrow>
   read_memory linux demo_kernel ptr In_Time (Inr \<lparr>rq_pid = 1, rq_addr = hex16 a, rq_size = sz\<rparr>) k
     = (\<lparr>status = OK, headers = [cache_control],
         body = Json (format_read 1 a (load_bytes a (unat sz) (dk_mem k 1)))\<rparr>, k\<lparr>dk_fds := []\<rparr>)"
  by (simp add: read_memory_def validate_hex16 [THEN iffD2] read_job_def demo_open demo_read
      driver_drop_def finish_memory_def)

lemma demo_write_memory:
  "1 \<le> length bs \<Longrightarrow> length bs \<le> 4096 \<Longrightarrow> unat a + length bs \<le> 2 ^ 64 \<Longrightarrow> dk_fds k = [] \<Longrightarrow>
   write_memory linux demo_kernel ptr In_Time
     (Inr \<lparr>wq_pid = 1, wq_addr = hex16 a, wq_data = join '' '' (map hex2 bs)\<rparr>) k
     = (\<lparr>status = OK, headers = [cache_control],
         body = Json \<lparr>wr_pid = 1, wr_addr = hex16 a, wr_written = length bs\<rparr>\<rparr>,
        k\<lparr>dk_mem := (dk_mem k)(1 := store_bytes a bs (dk_mem k 1)), dk_fds := []\<rparr>)"
  by (simp add: write_memory_def decode_hex_join validate_hex16 [THEN iffD2] unat_of_nat_u64
      write_job_def demo_open demo_write driver_drop_def finish_memory_def)

subsection \<open>Properties\<close>

text \<open>
  C23: \<open>validate\<close> accepts exactly a pid of a process, a size of 1 to 4096 bytes and an address
  of one to sixteen hexadecimal digits, with or without \<open>0x\<close>, that leaves the whole range
  below the top of the address space; it returns the address the digits denote.
\<close>

theorem validate_exact:
  "validate pid addr sz = Inr a \<longleftrightarrow>
     (let digits = strip_hex_prefix (trim addr) in
        0 < unat pid \<and> unat pid \<le> 2147483647 \<and> 1 \<le> unat sz \<and> unat sz \<le> 4096
        \<and> digits \<noteq> [] \<and> length digits \<le> 16 \<and> num_val 16 0 digits = Some (unat a)
        \<and> unat a + unat sz \<le> 2 ^ 64)"
  by (rule validate_Inr_iff)

text \<open>
  C24: \<open>decode_hex\<close> accepts a text exactly when, white space removed and letters lowered, it is
  the two-digit print of 1 to 4096 bytes, and returns those bytes: decoding is sound, complete
  and independent of spacing and case.
\<close>

theorem decode_hex_exact:
  "decode_hex t = Inr bs \<longleftrightarrow>
     1 \<le> length bs \<and> length bs \<le> 4096 \<and>
     to_ascii_lowercase (filter (\<lambda>c. \<not> is_ascii_ws c) t) = concat (map hex2 bs)"
  by (rule decode_hex_Inr_iff)

text \<open>
  C21: the rows of a validated read are at consecutive multiples of sixteen from the address,
  with no wrap-around, each shows its own sixteen bytes (the last one what is left), and the hex
  column of the whole view, sent back as write data, decodes to the bytes that were read.
\<close>

theorem read_view:
  assumes "validate pid addr sz = Inr a" and "length data = unat sz"
  shows "(\<forall>i < length (rr_rows (format_read pid a data)). \<exists>b.
        row_addr (rr_rows (format_read pid a data) ! i) = hex16 b \<and> unat b = unat a + 16 * i \<and>
        decode_hex (row_hex (rr_rows (format_read pid a data) ! i)) = Inr (take 16 (drop (16 * i) data)))
    \<and> decode_hex (join '' '' (map row_hex (rr_rows (format_read pid a data)))) = Inr data"
proof (intro conjI allI impI)
  let ?rows = "rr_rows (format_read pid a data)"
  note v = assms(1) [unfolded validate_Inr_iff Let_def]
  then have len: "1 \<le> length data" "length data \<le> 4096" and top: "unat a + length data \<le> 2 ^ 64"
    using assms(2) by auto
  show "decode_hex (join '' '' (map row_hex ?rows)) = Inr data"
    using decode_hex_rows [of "chunks 16 data"] len by (simp add: row_hexes concat_chunks)
  fix i assume i: "i < length ?rows"
  then have at: "16 * i < length data" by (simp add: length_rows)
  have "unat (a + of_nat (i * 16)) = unat a + 16 * i"
    using unat_add_offset [of a "i * 16"] at top by simp
  moreover have "decode_hex (join '' '' (map hex2 (take 16 (drop (16 * i) data))))
      = Inr (take 16 (drop (16 * i) data))"
    using at by (intro decode_hex_join) auto
  ultimately show "\<exists>b. row_addr (?rows ! i) = hex16 b \<and> unat b = unat a + 16 * i \<and>
      decode_hex (row_hex (?rows ! i)) = Inr (take 16 (drop (16 * i) data))"
    using i by (auto simp: rows_nth format_row_def)
qed

theorem read_view_witness:
  "decode_hex (join '' '' (map row_hex (rr_rows (format_read 1 0x1000 (replicate 16 7))))) = Inr (replicate 16 7)"
proof -
  have "validate 1 (hex16 0x1000) 16 = Inr 0x1000" by (simp add: validate_hex16)
  from read_view [OF this, where data = "replicate 16 7"] show ?thesis by simp
qed

text \<open>
  C22: paging never loses or repeats a byte: \<open>next_addr\<close> of a validated read is the address
  just past it in a form that \<open>validate\<close> accepts, and it is absent exactly at the top of the
  address space.
\<close>

theorem read_paging:
  assumes "validate pid addr sz = Inr a" and "length data = unat sz"
  shows "case rr_next_addr (format_read pid a data) of
      None \<Rightarrow> unat a + unat sz = 2 ^ 64
    | Some s \<Rightarrow> \<exists>b. validate pid s 1 = Inr b \<and> unat b = unat a + unat sz"
proof -
  note v = assms(1) [unfolded validate_Inr_iff Let_def]
  then have len: "unat (of_nat (length data) :: u64) = unat sz" using assms(2) by simp
  show ?thesis
  proof (cases "checked_add a (of_nat (length data))")
    case None
    then have "unat a + unat sz = 2 ^ 64" using v len by (simp add: checked_add_None_iff)
    with None show ?thesis by (simp add: format_read_def)
  next
    case (Some b)
    then have "unat b = unat a + unat sz" and "unat a + unat sz < 2 ^ 64"
      using len by (auto simp: checked_add_Some_iff)
    then show ?thesis using v Some by (simp add: format_read_def validate_hex16)
  qed
qed

theorem read_paging_witness:
  "case rr_next_addr (format_read 1 0x1000 (replicate 16 7)) of
      None \<Rightarrow> False
    | Some s \<Rightarrow> \<exists>b. validate 1 s 1 = Inr b \<and> unat b = 0x1010"
proof -
  have "validate 1 (hex16 0x1000) 16 = Inr 0x1000" by (simp add: validate_hex16)
  from read_paging [OF this, where data = "replicate 16 7"] show ?thesis
    by (simp split: option.splits)
qed

text \<open>
  C26: neither memory handler leaks a descriptor: whatever the request, the driver and the
  runtime do (short of a panic of the worker), the process holds the same descriptors after it.
\<close>

theorem memory_fds:
  assumes "fd_laws K fds" and "kernel_sane K" and "not_panic v"
  shows "fds (snd (read_memory sys K ptr v query k)) = fds k
    \<and> fds (snd (write_memory sys K ptr v payload k)) = fds k"
proof -
  have "fds (snd (run v (read_job sys K ptr p a n) k)) = fds k" for p a n
    by (rule run_frame [where f = fds]) (simp_all add: assms read_job_fds [OF assms(1,2)])
  moreover have "fds (snd (run v (write_job sys K ptr p a d) k)) = fds k" for p a d
    by (rule run_frame [where f = fds]) (simp_all add: assms write_job_fds [OF assms(1,2)])
  ultimately show ?thesis by (simp add: read_memory_def write_memory_def split: sum.splits)
qed

theorem memory_fds_witness:
  "set (dk_fds (snd (read_memory linux demo_kernel 0 In_Time
      (Inr \<lparr>rq_pid = 1, rq_addr = ''0x10'', rq_size = 16\<rparr>) demo_start))) = {}
    \<and> set (dk_fds (snd (write_memory linux demo_kernel 0 Too_Late (Inl (415, [])) demo_start))) = {}"
  using memory_fds [OF demo_fd_laws demo_sane, where v = In_Time and k = demo_start]
    memory_fds [OF demo_fd_laws demo_sane, where v = Too_Late and k = demo_start]
  by (simp add: not_panic_def demo_start_def)

text \<open>
  C25: a request whose job the runtime runs in time is answered as documented. A read is a 400 exactly
  when it does not validate, and then the driver has not been touched; a 200 exactly when it
  validates, a driver can be opened and the kernel accepts the call 601 for the process, the address
  and the size of the request; and a 502 otherwise. So is a write, with the decoding of its bytes and
  call 602.
\<close>

theorem memory_errors:
  assumes "read_memory sys K ptr In_Time query k = (r, k')" and "write_memory sys K ptr' In_Time (Inr w) k = (r', k'')"
  shows "status r \<in> {OK, BAD_REQUEST, BAD_GATEWAY} \<and> status r' \<in> {OK, BAD_REQUEST, BAD_GATEWAY}
    \<and> (status r = BAD_REQUEST \<longleftrightarrow>
        (\<forall>rq a. query = Inr rq \<longrightarrow> validate (rq_pid rq) (rq_addr rq) (rq_size rq) \<noteq> Inr a))
    \<and> (status r = OK \<longleftrightarrow>
        (\<exists>rq a fd k1 reply k2. query = Inr rq \<and> validate (rq_pid rq) (rq_addr rq) (rq_size rq) = Inr a
          \<and> driver_open sys K k = (Inr fd, k1)
          \<and> k_ioctl K fd 601 (Memory \<lparr>mm_pid = rq_pid rq, mm_res = 0, mm_addr = a, mm_buffer = ptr, mm_size = rq_size rq\<rparr>)
              (Byte_Buffer (replicate (unat (rq_size rq)) 0)) k1 = (reply, k2) \<and> 0 \<le> sint (io_rc reply)))
    \<and> (status r' = BAD_REQUEST \<longleftrightarrow>
        (\<forall>data a. decode_hex (wq_data w) = Inr data \<longrightarrow> validate (wq_pid w) (wq_addr w) (of_nat (length data)) \<noteq> Inr a))
    \<and> (status r' = OK \<longleftrightarrow>
        (\<exists>data a fd k1 reply k2. decode_hex (wq_data w) = Inr data
          \<and> validate (wq_pid w) (wq_addr w) (of_nat (length data)) = Inr a
          \<and> driver_open sys K k = (Inr fd, k1)
          \<and> k_ioctl K fd 602 (Memory \<lparr>mm_pid = wq_pid w, mm_res = 0, mm_addr = a, mm_buffer = ptr', mm_size = of_nat (length data)\<rparr>)
              (Byte_Buffer data) k1 = (reply, k2) \<and> 0 \<le> sint (io_rc reply)))
    \<and> (status r = BAD_REQUEST \<longrightarrow> k' = k) \<and> (status r' = BAD_REQUEST \<longrightarrow> k'' = k)"
  (is "?in1 \<and> ?in2 \<and> ?bad1 \<and> ?ok1 \<and> ?bad2 \<and> ?ok2 \<and> ?un1 \<and> ?un2")
proof -
  have rd: "?in1 \<and> ?bad1 \<and> ?ok1 \<and> ?un1"
  proof (cases "\<exists>rq a. query = Inr rq \<and> validate (rq_pid rq) (rq_addr rq) (rq_size rq) = Inr a")
    case False
    then show ?thesis using assms(1) by (auto simp: read_memory_def error_status split: sum.splits)
  next
    case True
    then obtain rq a where q: "query = Inr rq" "validate (rq_pid rq) (rq_addr rq) (rq_size rq) = Inr a" by blast
    let ?job = "read_job sys K ptr (rq_pid rq) a (unat (rq_size rq))"
    have "r = fst (finish_memory (run In_Time ?job k))" using assms(1) q by (simp add: read_memory_def)
    then have r: "status r = (if \<exists>b k'. ?job k = (Inr b, k') then OK else BAD_GATEWAY)"
      by (simp only: finish_in_time_status)
    have "(\<exists>b k'. ?job k = (Inr b, k')) \<longleftrightarrow> (\<exists>fd k1 k2. driver_open sys K k = (Inr fd, k1)
        \<and> (\<exists>data. driver_read_memory K ptr fd (rq_pid rq) a (unat (rq_size rq)) k1 = (Inr data, k2)))"
      unfolding read_job_ok by blast
    then show ?thesis using r q by (auto simp: driver_read_ok_iff error_status)
  qed
  have wr: "?in2 \<and> ?bad2 \<and> ?ok2 \<and> ?un2"
  proof (cases "\<exists>data a. decode_hex (wq_data w) = Inr data \<and> validate (wq_pid w) (wq_addr w) (of_nat (length data)) = Inr a")
    case False
    then show ?thesis using assms(2) by (auto simp: write_memory_def error_status split: sum.splits)
  next
    case True
    then obtain data a where q: "decode_hex (wq_data w) = Inr data"
      "validate (wq_pid w) (wq_addr w) (of_nat (length data)) = Inr a" by blast
    let ?job = "write_job sys K ptr' (wq_pid w) a data"
    have "r' = fst (finish_memory (run In_Time ?job k))" using assms(2) q by (simp add: write_memory_def)
    then have r: "status r' = (if \<exists>b k'. ?job k = (Inr b, k') then OK else BAD_GATEWAY)"
      by (simp only: finish_in_time_status)
    have "(\<exists>b k'. ?job k = (Inr b, k')) \<longleftrightarrow> (\<exists>fd k1 k2. driver_open sys K k = (Inr fd, k1)
        \<and> driver_write_memory K ptr' fd (wq_pid w) a data k1 = (Inr (), k2))"
      unfolding write_job_ok by blast
    then show ?thesis using r q by (auto simp: driver_write_ok_iff error_status)
  qed
  from rd wr show ?thesis by blast
qed

theorem memory_errors_witness:
  "status (fst (read_memory linux demo_kernel 0 In_Time (Inl ''bad'') demo_start)) = BAD_REQUEST
    \<and> status (fst (write_memory linux demo_kernel 0 In_Time (Inr \<lparr>wq_pid = 1, wq_addr = ''10'', wq_data = ''g''\<rparr>) demo_start)) = BAD_REQUEST"
proof -
  obtain r k' where r: "read_memory linux demo_kernel 0 In_Time (Inl ''bad'') demo_start = (r, k')" by fastforce
  obtain r' k'' where w: "write_memory linux demo_kernel 0 In_Time
      (Inr \<lparr>wq_pid = 1, wq_addr = ''10'', wq_data = ''g''\<rparr>) demo_start = (r', k'')" by fastforce
  have "decode_hex ''g'' = Inl BadData" by (simp add: decode_hex_def)
  then have "decode_hex ''g'' \<noteq> Inr data" for data by simp
  with memory_errors [OF r w] have "status r = BAD_REQUEST \<and> status r' = BAD_REQUEST" by simp
  with r w show ?thesis by simp
qed

text \<open>
  C20: a write answered with 200 has sent its data to the driver exactly once and exactly as
  written: the text of the data, blanks and case aside, is the hexadecimal print of the bytes of one call
  602 for the process, the address the digits of the request denote and the number of the bytes, made on
  a driver opened for it, accepted by the kernel and followed by the close; and the response reports
  that address and that number.
\<close>

theorem write_memory_ok:
  assumes "\<forall>st e. payload = Inl (st, e) \<longrightarrow> st \<noteq> OK"
    and "write_memory sys K ptr v payload k = (r, k')" and "status r = OK"
  shows "\<exists>rq data a fd k1 reply k2. payload = Inr rq
      \<and> to_ascii_lowercase (filter (\<lambda>c. \<not> is_ascii_ws c) (wq_data rq)) = concat (map hex2 data)
      \<and> num_val 16 0 (strip_hex_prefix (trim (wq_addr rq))) = Some (unat a)
      \<and> 1 \<le> length data \<and> length data \<le> 4096 \<and> unat a + length data \<le> 2 ^ 64
      \<and> driver_open sys K k = (Inr fd, k1)
      \<and> k_ioctl K fd 602 (Memory \<lparr>mm_pid = wq_pid rq, mm_res = 0, mm_addr = a, mm_buffer = ptr, mm_size = of_nat (length data)\<rparr>)
          (Byte_Buffer data) k1 = (reply, k2)
      \<and> 0 \<le> sint (io_rc reply) \<and> k' = k_close K fd k2
      \<and> body r = Json \<lparr>wr_pid = wq_pid rq, wr_addr = hex16 a, wr_written = length data\<rparr>"
proof -
  from write_memory_okD [OF assms] obtain rq data a fd k1 k2 where q: "payload = Inr rq"
    and d: "decode_hex (wq_data rq) = Inr data" and a: "validate (wq_pid rq) (wq_addr rq) (of_nat (length data)) = Inr a"
    and o: "driver_open sys K k = (Inr fd, k1)" "k' = k_close K fd k2"
    and w: "driver_write_memory K ptr fd (wq_pid rq) a data k1 = (Inr (), k2)"
    and r: "body r = Json \<lparr>wr_pid = wq_pid rq, wr_addr = hex16 a, wr_written = length data\<rparr>"
    by (auto simp: driver_drop_def)
  from d [unfolded decode_hex_Inr_iff] have len: "1 \<le> length data" "length data \<le> 4096"
    and t: "to_ascii_lowercase (filter (\<lambda>c. \<not> is_ascii_ws c) (wq_data rq)) = concat (map hex2 data)" by simp_all
  from a [unfolded validate_Inr_iff] len
  have "num_val 16 0 (strip_hex_prefix (trim (wq_addr rq))) = Some (unat a)" "unat a + length data \<le> 2 ^ 64"
    by (simp_all add: Let_def unat_of_nat_u64)
  with q t len o r w [unfolded driver_write_ok_iff] show ?thesis by blast
qed

theorem write_memory_ok_witness:
  "\<exists>data fd k1 reply k2. concat (map hex2 data) = ''0a0b''
      \<and> k_ioctl demo_kernel fd 602 (Memory \<lparr>mm_pid = 1, mm_res = 0, mm_addr = 16, mm_buffer = 0, mm_size = of_nat (length data)\<rparr>)
          (Byte_Buffer data) k1 = (reply, k2)"
proof -
  have "to_ascii_lowercase (filter (\<lambda>c. \<not> is_ascii_ws c) (join '' '' (map hex2 [10, 11]))) = ''0a0b''" by code_simp
  moreover have "num_val 16 0 (strip_hex_prefix (trim (hex16 16))) = Some 16" by code_simp
  ultimately show ?thesis
    using write_memory_ok [OF _ demo_write_memory [of "[10, 11]" "16" demo_start 0]]
    by (fastforce simp: demo_start_def)
qed

text \<open>
  C19: on a driver whose \<open>WRITE\<close> stores and whose \<open>READ\<close> loads process memory, reading back what
  was just written returns exactly the bytes of the write request.
\<close>

theorem write_then_read:
  assumes "mem_laws K mem"
    and "write_memory sys K ptr v (Inr w) k = (r, k1)" and "status r = OK"
    and "read_memory sys K ptr' v' (Inr rq) k1 = (r', k2)" and "status r' = OK"
    and "rq_pid rq = wq_pid w" and "rq_addr rq = wq_addr w"
    and "Inr data = decode_hex (wq_data w)" and "rq_size rq = of_nat (length data)"
  shows "\<exists>view. body r' = Json view \<and> rr_bytes view = data"
proof -
  from write_memory_okD [OF _ assms(2,3)] assms(8) obtain a fd j1 j2
    where v: "validate (wq_pid w) (wq_addr w) (of_nat (length data)) = Inr a"
      and "driver_write_memory K ptr fd (wq_pid w) a data j1 = (Inr (), j2)"
      and k1: "k1 = driver_drop K fd j2" by auto
  then have m: "mem k1 (wq_pid w) = store_bytes a data (mem j1 (wq_pid w))"
    using mem_laws_write [OF assms(1)] mem_laws_close [OF assms(1)] by simp
  have len: "length data \<le> 4096" using assms(8) decode_hex_Inr_iff [of "wq_data w" data] by simp
  then have n: "unat (of_nat (length data) :: u64) = length data" by (simp add: unat_of_nat_u64)
  from assms(4,5) obtain a' where v': "validate (rq_pid rq) (rq_addr rq) (rq_size rq) = Inr a'"
    and fin: "finish_memory (run v' (read_job sys K ptr' (rq_pid rq) a' (unat (rq_size rq))) k1) = (r', k2)"
    by (auto simp: read_memory_def error_status split: sum.splits)
  from v v' assms(6,7,9) have "a' = a" by simp
  from finish_run_okD [OF fin assms(5)] obtain fd' j3 d j4
    where o: "driver_open sys K k1 = (Inr fd', j3)"
      and rd: "driver_read_memory K ptr' fd' (rq_pid rq) a' (unat (rq_size rq)) j3 = (Inr d, j4)"
      and b: "body r' = Json (format_read (rq_pid rq) a' d)"
    unfolding read_job_ok by auto
  from mem_laws_read [OF assms(1) rd] mem_laws_open [OF assms(1) o] m n \<open>a' = a\<close> assms(6,9)
  have "d = load_bytes a (length data) (store_bytes a data (mem j1 (wq_pid w)))" by simp
  then have "d = data" using len by (simp add: load_store)
  with b show ?thesis by (simp add: format_read_def)
qed

theorem write_then_read_witness:
  "\<exists>view. body (fst (read_memory linux demo_kernel 0 In_Time
        (Inr \<lparr>rq_pid = 1, rq_addr = hex16 0x10, rq_size = 2\<rparr>)
        (snd (write_memory linux demo_kernel 0 In_Time
          (Inr \<lparr>wq_pid = 1, wq_addr = hex16 0x10, wq_data = join '' '' (map hex2 [10, 11])\<rparr>) demo_start))))
      = Json view \<and> rr_bytes view = [10, 11]"
proof -
  let ?w = "\<lparr>wq_pid = 1, wq_addr = hex16 0x10, wq_data = join '' '' (map hex2 [10, 11])\<rparr>"
  define k1 where "k1 = snd (write_memory linux demo_kernel 0 In_Time (Inr ?w) demo_start)"
  have w: "write_memory linux demo_kernel 0 In_Time (Inr ?w) demo_start = (\<lparr>status = OK,
      headers = [cache_control], body = Json \<lparr>wr_pid = 1, wr_addr = hex16 0x10, wr_written = 2\<rparr>\<rparr>, k1)"
    and fds: "dk_fds k1 = []"
    using demo_write_memory [of "[10, 11]" "0x10" demo_start 0] by (simp_all add: k1_def demo_start_def)
  note r = demo_read_memory [of 2 "0x10" k1 0, OF _ _ _ fds]
  have d: "Inr [10, 11] = decode_hex (join '' '' (map hex2 [10, 11]))"
    by (rule decode_hex_join [symmetric]) simp_all
  from write_then_read [OF demo_mem_laws w _ r, where data = "[10, 11]"] d r
  show ?thesis unfolding k1_def [symmetric] by simp
qed

end
