(* ===== verification/Http_Server.thy ===== *)
theory Http_Server
  imports Hit_Factory Watch_Loop Process_List Memory_Api "HOL-Library.AList"
begin

section \<open>The server (src/server.rs)\<close>

text \<open>
  The shared state of the server, the handlers of its routes, and its two kinds of background
  threads: the polling thread of each breakpoint, which offers samples to a bounded queue, and
  the hit worker, which turns samples into hits. What the server gets from outside is a record
  \<open>env\<close> of parameters over a world \<open>'k\<close>: the constants of other crates, the target
  architecture, the kernel driver, the list of threads of a process, the file system, and what the
  rest of the system may do to the world in between. A
  \<open>HashMap\<close> is an association list with distinct keys; nothing the server answers depends on
  its order. Logging is left out.
\<close>

subsection \<open>State\<close>

definition SAMPLE_QUEUE_CAPACITY :: nat where
  "SAMPLE_QUEUE_CAPACITY = 4096"

record breakpoint_view =
  bv_id :: u64
  bv_pid :: u32
  bv_type_name :: str
  bv_addr :: str
  bv_resolved_addr :: str
  bv_resolved_map :: "map_region option"
  bv_threads :: "u32 list"
  bv_created_at_ms :: nat
  bv_status :: str

record create_breakpoint_request =
  cq_pid :: u32
  cq_type_name :: str
  cq_addr :: str
  cq_backtrace :: bool
  cq_buf_size :: usize
  cq_filter :: "str option"

record queued_sample =
  qs_breakpoint_id :: u64
  qs_pid :: u32
  qs_data :: sample_data

text \<open>
  A polling thread: the breakpoint and the pid it reports for, what it polls, its cancel flag
  (shared with the \<open>RunningWatch\<close> of the breakpoint), how far it is in its round and its count of
  failed rounds.
\<close>

record poll_thread =
  pt_id :: u64
  pt_pid :: u32
  pt_watcher :: watcher
  pt_cancel :: bool
  pt_phase :: watch_phase
  pt_errors :: nat

record server =
  sv_next_breakpoint_id :: u64
  sv_hit_factory :: hit_factory
  sv_maps :: maps_cache
  sv_hit_buffer :: "hit list"
  sv_hit_buffer_poisoned :: bool
  sv_hit_buffer_limit :: nat
  sv_breakpoints :: "(u64 \<times> breakpoint_view) list"
  sv_breakpoints_poisoned :: bool
  sv_sent :: "hit list"
  sv_queue :: "queued_sample list"
  sv_receiver :: bool
  sv_dropped_samples :: u64
  sv_threads :: "poll_thread list"

text \<open>
  \<open>sv_sent\<close> is what has been sent to the broadcast channel so far, \<open>sv_queue\<close> the content of the
  sample channel and \<open>sv_receiver\<close> whether the hit worker could be started (else the receiving
  end is gone).
\<close>

definition initial_server :: "nat \<Rightarrow> bool \<Rightarrow> server" where
  "initial_server limit worker_started =
     \<lparr>sv_next_breakpoint_id = 1, sv_hit_factory = \<lparr>hf_next_seq = 0\<rparr>, sv_maps = empty_cache,
      sv_hit_buffer = [], sv_hit_buffer_poisoned = False, sv_hit_buffer_limit = limit,
      sv_breakpoints = [], sv_breakpoints_poisoned = False, sv_sent = [], sv_queue = [],
      sv_receiver = worker_started, sv_dropped_samples = 0, sv_threads = []\<rparr>"

record 'k env =
  en_sys :: sys_bindings
  en_arch :: arch
  en_kernel :: "'k kernel"
  en_tasks :: "i32 \<Rightarrow> 'k \<Rightarrow> (str + (str + i32) list) \<times> 'k"
  en_fs :: "'k proc_fs"
  en_world :: "'k \<Rightarrow> 'k \<Rightarrow> bool"

record times =
  tm_first :: nat
  tm_second :: nat
  tm_clock :: "nat option"

datatype api_error =
    InvalidType str
  | Maps_Error maps_error
  | Filter_Error filter_error
  | Watch_Error watch_error
  | LockPoisoned

fun api_error_text :: "api_error \<Rightarrow> str" where
  "api_error_text (InvalidType t) = ''invalid watchpoint type: '' @ t"
| "api_error_text (Maps_Error e) = maps_error_text e"
| "api_error_text (Filter_Error e) = filter_error_text e"
| "api_error_text (Watch_Error e) = watch_error_text e"
| "api_error_text LockPoisoned = ''breakpoint lock poisoned''"

definition now_ms :: "nat option \<Rightarrow> nat" where
  "now_ms clock = (case clock of Some t \<Rightarrow> t | None \<Rightarrow> 0)"

text \<open>What \<open>Mutex::try_lock\<close> reports: the lock is held elsewhere, or poisoned, or taken.\<close>

datatype lock_state = WouldBlock | Poisoned | Acquired

definition try_lock :: "bool \<Rightarrow> bool \<Rightarrow> lock_state" where
  "try_lock busy poisoned = (if busy then WouldBlock else if poisoned then Poisoned else Acquired)"

subsection \<open>Creating a breakpoint\<close>

definition parse_filter_option :: "arch \<Rightarrow> str option \<Rightarrow> filter_error + reg_filter option" where
  "parse_filter_option a f =
     (case f of None \<Rightarrow> Inr None | Some text \<Rightarrow> and_then (parse a text) (\<lambda>x. Inr (Some x)))"

definition request_config ::
  "create_breakpoint_request \<Rightarrow> u32 \<times> u32 \<Rightarrow> resolved_address \<Rightarrow> reg_filter option \<Rightarrow> watch_config" where
  "request_config rq ty_len resolved flt =
     \<lparr>wc_pid = cq_pid rq, wc_thread = False, wc_type_name = cq_type_name rq,
      wc_addr_text = ra_address resolved, wc_ty = fst ty_len, wc_addr = ra_value resolved,
      wc_len = ucast (snd ty_len), wc_backtrace = cq_backtrace rq, wc_buf_size = cq_buf_size rq,
      wc_filter = flt\<rparr>"

definition make_view ::
  "u64 \<Rightarrow> watch_config \<Rightarrow> resolved_address \<Rightarrow> watch_start \<Rightarrow> nat option \<Rightarrow> breakpoint_view" where
  "make_view i config resolved start clock =
     \<lparr>bv_id = i, bv_pid = wc_pid config, bv_type_name = wc_type_name config,
      bv_addr = ra_expression resolved, bv_resolved_addr = wc_addr_text config,
      bv_resolved_map = ra_map resolved, bv_threads = ws_threads start,
      bv_created_at_ms = now_ms clock, bv_status = ''running''\<rparr>"

text \<open>
  What follows when the request has been understood: the number is taken, the watch is started
  and the view made. The polling thread runs from here on.
\<close>

definition start_breakpoint ::
  "'k env \<Rightarrow> times \<Rightarrow> create_breakpoint_request \<Rightarrow> u32 \<times> u32 \<Rightarrow> resolved_address \<Rightarrow> reg_filter option
    \<Rightarrow> server \<Rightarrow> 'k \<Rightarrow> (api_error + breakpoint_view) \<times> (server \<times> 'k)" where
  "start_breakpoint env t rq ty_len resolved flt s k =
     (let i = sv_next_breakpoint_id s;
          s1 = s\<lparr>sv_next_breakpoint_id := i + 1\<rparr>;
          config = request_config rq ty_len resolved flt
      in case start_watch (en_sys env) (en_kernel env) (en_tasks env) config k of
           (Inl e, k1) \<Rightarrow> (Inl (Watch_Error e), (s1, k1))
         | (Inr (start, w), k1) \<Rightarrow>
             (Inr (make_view i config resolved start (tm_clock t)),
              (s1\<lparr>sv_threads := sv_threads s1 @
                 [\<lparr>pt_id = i, pt_pid = cq_pid rq, pt_watcher = w, pt_cancel = False,
                   pt_phase = Between, pt_errors = 0\<rparr>]\<rparr>, k1)))"

definition prepare_breakpoint ::
  "'k env \<Rightarrow> times \<Rightarrow> create_breakpoint_request \<Rightarrow> server \<times> 'k
    \<Rightarrow> (api_error + breakpoint_view) \<times> (server \<times> 'k)" where
  "prepare_breakpoint env t rq sk =
     (case sk of (s, k) \<Rightarrow>
        (case parse_watchpoint_type (en_sys env) (cq_type_name rq) of
           None \<Rightarrow> (Inl (InvalidType (cq_type_name rq)), (s, k))
         | Some ty_len \<Rightarrow>
             (case resolve_expression (pf_text (en_fs env)) (tm_first t) (tm_second t)
                     (cq_pid rq) (cq_addr rq) (sv_maps s) k of
                (r, c, k1) \<Rightarrow>
                  let s1 = s\<lparr>sv_maps := c\<rparr> in
                  (case r of
                     Inl e \<Rightarrow> (Inl (Maps_Error e), (s1, k1))
                   | Inr resolved \<Rightarrow>
                       (case parse_filter_option (en_arch env) (cq_filter rq) of
                          Inl e \<Rightarrow> (Inl (Filter_Error e), (s1, k1))
                        | Inr flt \<Rightarrow> start_breakpoint env t rq ty_len resolved flt s1 k1)))))"

text \<open>The last lines: the entry goes into the table, under its lock.\<close>

definition insert_breakpoint :: "breakpoint_view \<Rightarrow> server \<Rightarrow> (api_error + breakpoint_view) \<times> server" where
  "insert_breakpoint view s =
     (if sv_breakpoints_poisoned s then (Inl LockPoisoned, s)
      else (Inr view, s\<lparr>sv_breakpoints := AList.update (bv_id view) view (sv_breakpoints s)\<rparr>))"

definition create_breakpoint_inner ::
  "'k env \<Rightarrow> times \<Rightarrow> create_breakpoint_request \<Rightarrow> server \<times> 'k
    \<Rightarrow> (api_error + breakpoint_view) \<times> (server \<times> 'k)" where
  "create_breakpoint_inner env t rq sk =
     (case prepare_breakpoint env t rq sk of
        (Inl e, sk1) \<Rightarrow> (Inl e, sk1)
      | (Inr view, (s1, k1)) \<Rightarrow> (case insert_breakpoint view s1 of (r, s2) \<Rightarrow> (r, (s2, k1))))"

definition create_breakpoint ::
  "'k env \<Rightarrow> times \<Rightarrow> (server \<times> 'k) verdict \<Rightarrow> create_breakpoint_request \<Rightarrow> server \<times> 'k
    \<Rightarrow> breakpoint_view response \<times> (server \<times> 'k)" where
  "create_breakpoint env t v rq sk =
     (case run v (create_breakpoint_inner env t rq) sk of
        (Inr view, sk') \<Rightarrow> (\<lparr>status = CREATED, headers = [], body = Json view\<rparr>, sk')
      | (Inl e, sk') \<Rightarrow> (error_response BAD_REQUEST (run_error_text api_error_text e), sk'))"

subsection \<open>Listing and deleting breakpoints, reading hits\<close>

definition list_breakpoints :: "bool \<Rightarrow> server \<Rightarrow> breakpoint_view list response" where
  "list_breakpoints busy s =
     (case try_lock busy (sv_breakpoints_poisoned s) of
        Acquired \<Rightarrow> json_response (sort_key (\<lambda>v. unat (bv_id v)) (map snd (sv_breakpoints s)))
      | WouldBlock \<Rightarrow> error_response SERVICE_UNAVAILABLE ''breakpoint state is busy''
      | Poisoned \<Rightarrow> error_response INTERNAL_SERVER_ERROR ''breakpoint lock poisoned'')"

text \<open>\<open>RunningWatch::stop\<close> sets the cancel flag and lets the thread clean up by itself.\<close>

definition stop :: "u64 \<Rightarrow> poll_thread list \<Rightarrow> poll_thread list" where
  "stop i ts = map (\<lambda>t. if pt_id t = i then t\<lparr>pt_cancel := True\<rparr> else t) ts"

definition delete_breakpoint :: "bool \<Rightarrow> u64 \<Rightarrow> server \<Rightarrow> unit response \<times> server" where
  "delete_breakpoint busy i s =
     (case try_lock busy (sv_breakpoints_poisoned s) of
        WouldBlock \<Rightarrow> (error_response SERVICE_UNAVAILABLE ''breakpoint state is busy'', s)
      | Poisoned \<Rightarrow> (error_response INTERNAL_SERVER_ERROR ''breakpoint lock poisoned'', s)
      | Acquired \<Rightarrow>
          (case map_of (sv_breakpoints s) i of
             Some _ \<Rightarrow>
               (\<lparr>status = NO_CONTENT, headers = [], body = Empty_Body\<rparr>,
                s\<lparr>sv_breakpoints := AList.delete i (sv_breakpoints s), sv_threads := stop i (sv_threads s)\<rparr>)
           | None \<Rightarrow>
               (error_response NOT_FOUND (''breakpoint '' @ show_nat (unat i) @ '' not found''), s)))"

definition get_hits :: "bool \<Rightarrow> nat option \<Rightarrow> server \<Rightarrow> hit list response" where
  "get_hits busy limit s =
     (case try_lock busy (sv_hit_buffer_poisoned s) of
        Acquired \<Rightarrow>
          json_response (rev (take (case limit of Some n \<Rightarrow> n | None \<Rightarrow> 100) (rev (sv_hit_buffer s))))
      | WouldBlock \<Rightarrow> error_response SERVICE_UNAVAILABLE ''hit buffer is busy''
      | Poisoned \<Rightarrow> error_response INTERNAL_SERVER_ERROR ''hit buffer lock poisoned'')"

text \<open>
  The event stream: a \<open>ready\<close> event, then one \<open>hit\<close> event for each hit the broadcast stream
  yields; where it yields that the receiver has lagged, nothing. Rendering to JSON is \<open>json\<close>.
\<close>

definition stream_hits :: "(hit \<Rightarrow> str + str) \<Rightarrow> (nat + hit) list \<Rightarrow> (str + str \<times> str) list" where
  "stream_hits json received =
     Inr (''ready'', ''{}'') #
     List.map_filter (\<lambda>r. map_option (\<lambda>h. and_then (json h) (\<lambda>d. Inr (''hit'', d))) (result_ok r)) received"

subsection \<open>Processes, maps, addresses\<close>

definition list_processes ::
  "'k env \<Rightarrow> 'k verdict \<Rightarrow> processes_query \<Rightarrow> 'k \<Rightarrow> process_view list response \<times> 'k" where
  "list_processes env v q k =
     (case run v (read_processes (en_fs env) q) k of
        (Inr ps, k') \<Rightarrow> (json_response ps, k')
      | (Inl e, k') \<Rightarrow> (error_response INTERNAL_SERVER_ERROR (run_error_text (\<lambda>x. x) e), k'))"

definition with_maps ::
  "(maps_cache \<Rightarrow> 'k \<Rightarrow> (maps_error + 'a) \<times> maps_cache \<times> 'k) \<Rightarrow> server \<times> 'k
    \<Rightarrow> (maps_error + 'a) \<times> (server \<times> 'k)" where
  "with_maps job sk =
     (case job (sv_maps (fst sk)) (snd sk) of (r, c, k') \<Rightarrow> (r, ((fst sk)\<lparr>sv_maps := c\<rparr>, k')))"

definition answer_maps :: "(maps_error run_error + 'a) \<times> 'w \<Rightarrow> 'a response \<times> 'w" where
  "answer_maps res =
     (case res of
        (Inr x, w) \<Rightarrow> (json_response x, w)
      | (Inl e, w) \<Rightarrow> (error_response BAD_REQUEST (run_error_text maps_error_text e), w))"

definition list_maps_handler ::
  "'k env \<Rightarrow> nat \<Rightarrow> (server \<times> 'k) verdict \<Rightarrow> u32 \<Rightarrow> server \<times> 'k \<Rightarrow> map_region list response \<times> (server \<times> 'k)" where
  "list_maps_handler env now v pid sk =
     answer_maps (run v (with_maps (list_maps (pf_text (en_fs env)) now pid)) sk)"

definition resolve_address ::
  "'k env \<Rightarrow> times \<Rightarrow> (server \<times> 'k) verdict \<Rightarrow> u32 \<Rightarrow> str \<Rightarrow> server \<times> 'k
    \<Rightarrow> resolved_address response \<times> (server \<times> 'k)" where
  "resolve_address env t v pid addr sk =
     answer_maps (run v (with_maps
       (resolve_expression (pf_text (en_fs env)) (tm_first t) (tm_second t) pid addr)) sk)"

subsection \<open>Samples and hits\<close>

text \<open>\<open>try_send\<close>: it fails when the queue is full or its receiver is gone.\<close>

definition offer_sample :: "u64 \<Rightarrow> u32 \<Rightarrow> sample_data \<Rightarrow> server \<Rightarrow> server" where
  "offer_sample i pid data s =
     (if sv_receiver s \<and> length (sv_queue s) < SAMPLE_QUEUE_CAPACITY
      then s\<lparr>sv_queue := sv_queue s @ [\<lparr>qs_breakpoint_id = i, qs_pid = pid, qs_data = data\<rparr>]\<rparr>
      else s\<lparr>sv_dropped_samples := sv_dropped_samples s + 1\<rparr>)"

text \<open>\<open>while buffer.len() >= limit { buffer.pop_front(); }\<close>\<close>

fun evict :: "nat \<Rightarrow> 'a list \<Rightarrow> 'a list" where
  "evict limit [] = []"
| "evict limit (x # xs) = (if limit \<le> length (x # xs) then evict limit xs else x # xs)"

definition push_hit :: "hit \<Rightarrow> server \<Rightarrow> server" where
  "push_hit h s =
     (let s1 = (if 0 < sv_hit_buffer_limit s \<and> \<not> sv_hit_buffer_poisoned s
                then s\<lparr>sv_hit_buffer := evict (sv_hit_buffer_limit s) (sv_hit_buffer s) @ [h]\<rparr>
                else s)
      in s1\<lparr>sv_sent := sv_sent s1 @ [h]\<rparr>)"

text \<open>
  The hit worker. Between two accesses to shared state it holds a sample, which is no longer in the
  queue, and what has been resolved for it; on an empty queue it waits.
\<close>

datatype worker_phase =
    Waiting
  | Took queued_sample
  | Resolved_Regs queued_sample "address_resolution option list"
  | Resolved queued_sample "address_resolution option list" "address_resolution option list option"

fun worker_step ::
  "'k env \<Rightarrow> times \<Rightarrow> worker_phase \<times> server \<times> 'k \<Rightarrow> worker_phase \<times> server \<times> 'k" where
  "worker_step env t (Waiting, s, k) =
     (case sv_queue s of
        [] \<Rightarrow> (Waiting, s, k)
      | q # qs \<Rightarrow> (Took q, s\<lparr>sv_queue := qs\<rparr>, k))"
| "worker_step env t (Took q, s, k) =
     (case resolve_many_addresses (pf_text (en_fs env)) (tm_first t) (qs_pid q)
             (sd_regs (qs_data q)) (sv_maps s) k of
        (regs, c, k') \<Rightarrow> (Resolved_Regs q regs, s\<lparr>sv_maps := c\<rparr>, k'))"
| "worker_step env t (Resolved_Regs q regs, s, k) =
     (case sd_backtrace (qs_data q) of
        None \<Rightarrow> (Resolved q regs None, s, k)
      | Some frames \<Rightarrow>
          (case resolve_many_addresses (pf_text (en_fs env)) (tm_second t) (qs_pid q)
                  frames (sv_maps s) k of
             (bt, c, k') \<Rightarrow> (Resolved q regs (Some bt), s\<lparr>sv_maps := c\<rparr>, k')))"
| "worker_step env t (Resolved q regs bt, s, k) =
     (case make_hit_with_maps (en_arch env) (tm_clock t) (qs_breakpoint_id q) (qs_data q) regs bt
             (sv_hit_factory s) of
        (h, f) \<Rightarrow> (Waiting, push_hit h (s\<lparr>sv_hit_factory := f\<rparr>), k))"

text \<open>One turn of the worker with nothing in between: its four steps.\<close>

definition hit_worker_turn :: "'k env \<Rightarrow> times \<Rightarrow> server \<times> 'k \<Rightarrow> server \<times> 'k" where
  "hit_worker_turn env t sk = snd (fold (worker_step env) (replicate 4 t) (Waiting, sk))"

text \<open>
  One step of a polling thread, as in \<open>watch_step\<close>: the sample it hands on, if any, is offered to the
  queue; a thread that has closed its driver is gone.
\<close>

definition poll_step :: "'k env \<Rightarrow> u64 \<Rightarrow> nat \<Rightarrow> server \<times> 'k \<Rightarrow> server \<times> 'k" where
  "poll_step env ptr j sk =
     (case sk of (s, k) \<Rightarrow>
        if \<not> j < length (sv_threads s) then (s, k)
        else
          let t = sv_threads s ! j; w = pt_watcher t in
          (case watch_step (en_kernel env) ptr w (pt_cancel t) (pt_phase t) (pt_errors t) k of
             (out, st, k1) \<Rightarrow>
               let s1 = fold (offer_sample (pt_id t) (pt_pid t)) out s in
               (case st of
                  Some (ph, c) \<Rightarrow>
                    (s1\<lparr>sv_threads := (sv_threads s)[j := t\<lparr>pt_phase := ph, pt_errors := c\<rparr>]\<rparr>, k1)
                | None \<Rightarrow>
                    (s1\<lparr>sv_threads := take j (sv_threads s) @ drop (Suc j) (sv_threads s)\<rparr>, k1))))"

subsection \<open>CORS\<close>

definition cors_headers :: "(str \<times> str) list" where
  "cors_headers =
     [(''access-control-allow-origin'', ''*''),
      (''access-control-allow-methods'', ''GET,POST,DELETE,OPTIONS''),
      (''access-control-allow-headers'', ''content-type,accept'')]"

text \<open>The middleware: \<open>HeaderMap::insert\<close> replaces.\<close>

definition add_cors_headers :: "str \<Rightarrow> ('k \<Rightarrow> 'b response \<times> 'k) \<Rightarrow> 'k \<Rightarrow> 'b response \<times> 'k" where
  "add_cors_headers request_method next_handler k =
     (case (if request_method = ''OPTIONS''
            then (\<lparr>status = NO_CONTENT, headers = [], body = Empty_Body\<rparr>, k)
            else next_handler k) of
        (r, k') \<Rightarrow> (r\<lparr>headers := fold (\<lambda>(n, v). AList.update n v) cors_headers (headers r)\<rparr>, k'))"

end
