(* ===== verification/Server_Safety.thy ===== *)
theory Server_Safety
  imports Http_Server
begin

section \<open>The server in every interleaving\<close>

text \<open>
  Requests, polling threads and the hit worker act on the shared state in any order. The steps
  of the server are a transition relation; its invariant covers the breakpoint table with its
  threads and the hit log with its queue. A creation is two steps, with the polling thread already
  running between them; so is a deletion, whose entry is gone before its thread is told; a polling
  thread advances as in \<open>watch_step\<close> and the worker as in \<open>worker_step\<close>; a memory request opens, calls
  and closes the driver in three steps; any other request is one step.
\<close>

subsection \<open>Steps of the server\<close>

text \<open>
  The local state of the requests that are between two of their steps, and of the worker: entries
  on their way into the table, deleted numbers whose threads have not been told yet, and the driver
  descriptors of memory requests.
\<close>

record inflight =
  fl_opening :: "breakpoint_view list"
  fl_closing :: "u64 list"
  fl_memory :: "i32 list"
  fl_worker :: worker_phase

type_synonym 'k system = "server \<times> inflight \<times> 'k"

definition no_inflight :: inflight where
  "no_inflight = \<lparr>fl_opening = [], fl_closing = [], fl_memory = [], fl_worker = Waiting\<rparr>"

text \<open>
  What can happen to the shared state and to what the server holds in the kernel, in any order: a
  request is handled, a polling thread or the hit worker takes a turn, the world moves on. A creation
  takes the next of \<open>2 ^ 64 - 1\<close> numbers. A memory request opens a driver of its own, makes one call
  on it and closes it, each a step; a request that changes nothing is no step.
\<close>

inductive server_step :: "'k env \<Rightarrow> 'k system \<Rightarrow> 'k system \<Rightarrow> bool" for env :: "'k env" where
  step_prepare_failed: "sv_next_breakpoint_id s \<noteq> -1 \<Longrightarrow>
     prepare_breakpoint env t rq (s, k) = (Inl e, (s', k')) \<Longrightarrow> server_step env (s, fl, k) (s', fl, k')"
| step_prepare: "sv_next_breakpoint_id s \<noteq> -1 \<Longrightarrow>
     prepare_breakpoint env t rq (s, k) = (Inr v, (s', k')) \<Longrightarrow>
     server_step env (s, fl, k) (s', fl\<lparr>fl_opening := v # fl_opening fl\<rparr>, k')"
| step_insert: "v \<in> set (fl_opening fl) \<Longrightarrow>
     server_step env (s, fl, k) (snd (insert_breakpoint v s), fl\<lparr>fl_opening := remove1 v (fl_opening fl)\<rparr>, k)"
| step_unlist: "\<not> sv_breakpoints_poisoned s \<Longrightarrow> map_of (sv_breakpoints s) i \<noteq> None \<Longrightarrow>
     server_step env (s, fl, k)
       (s\<lparr>sv_breakpoints := AList.delete i (sv_breakpoints s)\<rparr>, fl\<lparr>fl_closing := i # fl_closing fl\<rparr>, k)"
| step_stop: "i \<in> set (fl_closing fl) \<Longrightarrow>
     server_step env (s, fl, k)
       (s\<lparr>sv_threads := stop i (sv_threads s)\<rparr>, fl\<lparr>fl_closing := remove1 i (fl_closing fl)\<rparr>, k)"
| step_maps: "not_panic v \<Longrightarrow> snd (list_maps_handler env now v pid (s, k)) = (s', k') \<Longrightarrow>
     server_step env (s, fl, k) (s', fl, k')"
| step_resolve: "not_panic v \<Longrightarrow> snd (resolve_address env t v pid addr (s, k)) = (s', k') \<Longrightarrow>
     server_step env (s, fl, k) (s', fl, k')"
| step_processes: "not_panic v \<Longrightarrow> snd (list_processes env v q k) = k' \<Longrightarrow>
     server_step env (s, fl, k) (s, fl, k')"
| step_memory_open_failed: "driver_open (en_sys env) (en_kernel env) k = (Inl e, k') \<Longrightarrow>
     server_step env (s, fl, k) (s, fl, k')"
| step_memory_open: "driver_open (en_sys env) (en_kernel env) k = (Inr fd, k') \<Longrightarrow>
     server_step env (s, fl, k) (s, fl\<lparr>fl_memory := fd # fl_memory fl\<rparr>, k')"
| step_memory_read: "fd \<in> set (fl_memory fl) \<Longrightarrow>
     driver_read_memory (en_kernel env) ptr fd pid addr n k = (r, k') \<Longrightarrow> server_step env (s, fl, k) (s, fl, k')"
| step_memory_write: "fd \<in> set (fl_memory fl) \<Longrightarrow>
     driver_write_memory (en_kernel env) ptr fd pid addr data k = (r', k') \<Longrightarrow> server_step env (s, fl, k) (s, fl, k')"
| step_memory_close: "fd \<in> set (fl_memory fl) \<Longrightarrow>
     server_step env (s, fl, k)
       (s, fl\<lparr>fl_memory := remove1 fd (fl_memory fl)\<rparr>, driver_drop (en_kernel env) fd k)"
| step_poll: "poll_step env ptr j (s, k) = (s', k') \<Longrightarrow> server_step env (s, fl, k) (s', fl, k')"
| step_worker: "worker_step env t (fl_worker fl, s, k) = (ph, s', k') \<Longrightarrow>
     server_step env (s, fl, k) (s', fl\<lparr>fl_worker := ph\<rparr>, k')"
| step_world: "en_world env k k' \<Longrightarrow> server_step env (s, fl, k) (s, fl, k')"

inductive_cases server_stepE: "server_step env sk sk'"

subsection \<open>The invariant\<close>

text \<open>The entries of the table together with those on their way into it.\<close>

definition live_entries :: "server \<Rightarrow> inflight \<Rightarrow> (u64 \<times> breakpoint_view) list" where
  "live_entries s fl = sv_breakpoints s @ map (\<lambda>v. (bv_id v, v)) (fl_opening fl)"

definition entries_ok :: "u64 \<Rightarrow> (u64 \<times> breakpoint_view) list \<Rightarrow> bool" where
  "entries_ok n bps \<longleftrightarrow> distinct (map fst bps) \<and>
     (\<forall>(i, v) \<in> set bps. bv_id v = i \<and> 0 < unat i \<and> unat i < unat n)"

definition closing_ok :: "u64 \<Rightarrow> u64 set \<Rightarrow> u64 set \<Rightarrow> bool" where
  "closing_ok n listed closing \<longleftrightarrow> (\<forall>i \<in> closing. i \<notin> listed \<and> unat i < unat n)"

definition threads_ok :: "u64 \<Rightarrow> u64 set \<Rightarrow> poll_thread list \<Rightarrow> bool" where
  "threads_ok n running ts \<longleftrightarrow> distinct (map pt_id ts) \<and>
     (\<forall>t \<in> set ts. 0 < unat (pt_id t) \<and> unat (pt_id t) < unat n \<and> (pt_cancel t \<or> pt_id t \<in> running))"

definition breakpoints_inv :: "server \<Rightarrow> inflight \<Rightarrow> bool" where
  "breakpoints_inv s fl \<longleftrightarrow>
     \<not> sv_breakpoints_poisoned s \<and> 0 < unat (sv_next_breakpoint_id s)
     \<and> entries_ok (sv_next_breakpoint_id s) (live_entries s fl)
     \<and> closing_ok (sv_next_breakpoint_id s) (fst ` set (live_entries s fl)) (set (fl_closing fl))
     \<and> threads_ok (sv_next_breakpoint_id s) (fst ` set (live_entries s fl) \<union> set (fl_closing fl)) (sv_threads s)"

definition hits_inv :: "server \<Rightarrow> bool" where
  "hits_inv s \<longleftrightarrow>
     \<not> sv_hit_buffer_poisoned s \<and> length (sv_queue s) \<le> SAMPLE_QUEUE_CAPACITY \<and>
     sv_hit_buffer s = last_n (sv_hit_buffer_limit s) (sv_sent s) \<and>
     map ht_seq (sv_sent s) = map of_nat [1..<Suc (length (sv_sent s))] \<and>
     hf_next_seq (sv_hit_factory s) = of_nat (length (sv_sent s))"

text \<open>The two halves of the state, each of which most operations leave alone.\<close>

definition table_of :: "server \<Rightarrow> u64 \<times> bool \<times> (u64 \<times> breakpoint_view) list \<times> poll_thread list" where
  "table_of s = (sv_next_breakpoint_id s, sv_breakpoints_poisoned s, sv_breakpoints s, sv_threads s)"

definition log_of :: "server \<Rightarrow> bool \<times> queued_sample list \<times> hit list \<times> nat \<times> hit list \<times> hit_factory" where
  "log_of s = (sv_hit_buffer_poisoned s, sv_queue s, sv_hit_buffer s, sv_hit_buffer_limit s, sv_sent s, sv_hit_factory s)"

lemma breakpoints_inv_cong: "table_of s = table_of s' \<Longrightarrow> breakpoints_inv s fl \<longleftrightarrow> breakpoints_inv s' fl"
  by (simp add: breakpoints_inv_def table_of_def live_entries_def)

lemma hits_inv_cong: "log_of s = log_of s' \<Longrightarrow> hits_inv s \<longleftrightarrow> hits_inv s'"
  by (simp add: hits_inv_def log_of_def)

definition server_inv :: "server \<Rightarrow> inflight \<Rightarrow> bool" where
  "server_inv s fl \<longleftrightarrow> breakpoints_inv s fl \<and> hits_inv s"

lemma server_inv_initial: "server_inv (initial_server limit started) no_inflight"
  by (simp add: server_inv_def breakpoints_inv_def hits_inv_def initial_server_def last_n_def
      entries_ok_def closing_ok_def threads_ok_def live_entries_def no_inflight_def)

subsubsection \<open>Hits\<close>

lemma evict_last_n: "0 < limit \<Longrightarrow> evict limit xs = last_n (limit - 1) xs"
proof (induction limit xs rule: evict.induct)
  case (2 limit x xs)
  show ?case
  proof (cases "limit \<le> length (x # xs)")
    case True
    then have "last_n (limit - 1) (x # xs) = last_n (limit - 1) xs"
      using 2 by (simp add: last_n_def Suc_diff_le)
    with 2 True show ?thesis by simp
  next
    case False
    then show ?thesis by (simp add: last_n_all)
  qed
qed (simp add: last_n_def)

lemma evict_push:
  assumes "0 < limit"
  shows "evict limit (last_n limit xs) @ [x] = last_n limit (xs @ [x])"
proof -
  obtain m where m: "limit = Suc m" using assms by (cases limit) auto
  then show ?thesis by (simp add: evict_last_n last_n_snoc last_n_last_n)
qed

lemma push_hit_inv:
  assumes "hits_inv s" and "ht_seq h = of_nat (Suc (length (sv_sent s)))"
  shows "hits_inv (push_hit h (s\<lparr>sv_hit_factory := \<lparr>hf_next_seq = ht_seq h\<rparr>\<rparr>))"
  using assms evict_push [of "sv_hit_buffer_limit s" "sv_sent s" h]
  by (cases "sv_hit_buffer_limit s = 0") (simp_all add: hits_inv_def push_hit_def Let_def)

lemma table_push_hit [simp]: "table_of (push_hit h s) = table_of s"
  by (simp add: table_of_def push_hit_def Let_def)

lemma table_offer [simp]: "table_of (offer_sample i pid d s) = table_of s"
  by (simp add: table_of_def offer_sample_def)

lemma offer_inv: "hits_inv s \<Longrightarrow> hits_inv (offer_sample i pid d s)"
  by (auto simp: hits_inv_def offer_sample_def)

lemma fold_offer_inv: "hits_inv s \<Longrightarrow> hits_inv (fold (offer_sample i pid) ds s)"
  by (induction ds arbitrary: s) (auto intro: offer_inv)

lemma fold_offer_table [simp]: "table_of (fold (offer_sample i pid) ds s) = table_of s"
  by (induction ds arbitrary: s) auto

text \<open>
  One step of the worker, with everything the resolution of addresses decides left open: it takes the
  oldest sample, resolves (only the maps cache changes), or makes the next hit.
\<close>

lemma worker_step_cases:
  assumes "worker_step env t (ph, s, k) = (ph', s', k')"
  obtains (idle) "ph = Waiting" "sv_queue s = []" "ph' = ph" "s' = s" "k' = k"
  | (take) q qs where "ph = Waiting" "sv_queue s = q # qs" "ph' = Took q" "s' = s\<lparr>sv_queue := qs\<rparr>" "k' = k"
  | (regs) q rs c where "ph = Took q" "ph' = Resolved_Regs q rs" "s' = s\<lparr>sv_maps := c\<rparr>"
  | (backtrace) q rs bt c where "ph = Resolved_Regs q rs" "ph' = Resolved q rs bt" "s' = s\<lparr>sv_maps := c\<rparr>"
  | (hit) q rs bt where "ph = Resolved q rs bt" "ph' = Waiting" "k' = k"
    "s' = push_hit (fst (make_hit_with_maps (en_arch env) (tm_clock t) (qs_breakpoint_id q) (qs_data q) rs bt (sv_hit_factory s)))
            (s\<lparr>sv_hit_factory := \<lparr>hf_next_seq = hf_next_seq (sv_hit_factory s) + 1\<rparr>\<rparr>)"
proof (cases ph)
  case Waiting
  with assms idle take show thesis by (auto split: list.splits)
next
  case (Took q)
  with assms regs show thesis by (auto split: prod.splits)
next
  case (Resolved_Regs q rs)
  show thesis
  proof (cases "sd_backtrace (qs_data q)")
    case None
    with assms Resolved_Regs show thesis by (intro backtrace [of q rs None "sv_maps s"]) simp_all
  next
    case (Some frames)
    with assms Resolved_Regs backtrace show thesis by (auto split: prod.splits)
  qed
next
  case (Resolved q rs bt)
  obtain h f where m: "make_hit_with_maps (en_arch env) (tm_clock t) (qs_breakpoint_id q) (qs_data q) rs bt
      (sv_hit_factory s) = (h, f)" by fastforce
  then have "f = \<lparr>hf_next_seq = hf_next_seq (sv_hit_factory s) + 1\<rparr>" by (auto simp: make_hit_with_maps_def)
  with assms Resolved m show thesis by (intro hit [of q rs bt]) simp_all
qed

lemma worker_step_inv:
  assumes "server_inv s fl" and "worker_step env t (ph, s, k) = (ph', s', k')"
  shows "server_inv s' (fl\<lparr>fl_worker := ph''\<rparr>)"
proof -
  have fl: "breakpoints_inv u (fl\<lparr>fl_worker := ph''\<rparr>) \<longleftrightarrow> breakpoints_inv u fl" for u
    by (simp add: breakpoints_inv_def live_entries_def)
  from assms(2) show ?thesis
  proof (cases rule: worker_step_cases)
    case (hit q rs bt)
    let ?h = "fst (make_hit_with_maps (en_arch env) (tm_clock t) (qs_breakpoint_id q) (qs_data q) rs bt (sv_hit_factory s))"
    have "ht_seq ?h = of_nat (Suc (length (sv_sent s)))"
      using assms(1) by (simp add: server_inv_def hits_inv_def)
    then have "hits_inv (push_hit ?h (s\<lparr>sv_hit_factory := \<lparr>hf_next_seq = ht_seq ?h\<rparr>\<rparr>))"
      using assms(1) by (intro push_hit_inv) (simp_all add: server_inv_def)
    moreover have "breakpoints_inv (push_hit ?h (s\<lparr>sv_hit_factory := \<lparr>hf_next_seq = ht_seq ?h\<rparr>\<rparr>)) fl
        \<longleftrightarrow> breakpoints_inv s fl"
      by (rule breakpoints_inv_cong) (simp, simp add: table_of_def)
    ultimately show ?thesis using assms(1) hit(4) fl by (simp add: server_inv_def)
  qed (use assms(1) fl in \<open>simp_all add: server_inv_def breakpoints_inv_def hits_inv_def live_entries_def\<close>)
qed

subsubsection \<open>Breakpoints\<close>

lemma update_fresh: "i \<notin> fst ` set al \<Longrightarrow> AList.update i v al = al @ [(i, v)]"
  by (induction al) auto

lemma unat_succ: "i \<noteq> -1 \<Longrightarrow> unat (i + 1) = Suc (unat i)" for i :: u64
proof -
  assume "i \<noteq> -1"
  moreover have "i = of_nat (unat i)" by simp
  moreover have "(of_nat (2 ^ 64 - 1) :: u64) = -1" by simp
  ultimately have "unat i \<noteq> 2 ^ 64 - 1" by metis
  then have "unat i + 1 < 2 ^ 64" using unat_u64_lt [of i] by simp
  then show ?thesis using unat_word_ariths(1) [of i 1] by simp
qed

lemma entries_ok_mono: "entries_ok n bps \<Longrightarrow> unat n \<le> unat m \<Longrightarrow> entries_ok m bps"
  by (fastforce simp: entries_ok_def)

lemma entries_ok_mset: "mset bps = mset bps' \<Longrightarrow> entries_ok n bps \<longleftrightarrow> entries_ok n bps'"
proof -
  assume m: "mset bps = mset bps'"
  then have "set bps = set bps'" by (rule mset_eq_setD)
  moreover have "distinct (map fst bps) = distinct (map fst bps')"
    using m by (intro mset_eq_imp_distinct_iff) simp
  ultimately show ?thesis by (simp add: entries_ok_def)
qed

lemma entries_ok_fresh: "entries_ok n bps \<Longrightarrow> n \<notin> fst ` set bps"
  by (auto simp: entries_ok_def)

lemma entries_ok_add:
  "entries_ok n (bps @ vs) \<Longrightarrow> 0 < unat n \<Longrightarrow> unat n < unat m \<Longrightarrow> bv_id v = n \<Longrightarrow>
     entries_ok m (bps @ (n, v) # vs)"
  using entries_ok_fresh [of n "bps @ vs"] entries_ok_mono [of n "bps @ vs" m]
  by (auto simp: entries_ok_def)

lemma entries_ok_delete: "entries_ok n (bps @ vs) \<Longrightarrow> entries_ok n (AList.delete i bps @ vs)"
proof -
  assume ok: "entries_ok n (bps @ vs)"
  have sub: "set (AList.delete i bps @ vs) \<subseteq> set (bps @ vs)"
    by (auto simp: AList.delete_eq)
  have "distinct (map fst (AList.delete i bps))"
    using ok by (intro distinct_delete) (simp add: entries_ok_def)
  moreover have "fst ` set (AList.delete i bps) \<subseteq> fst ` set bps"
    by (auto simp: AList.delete_eq)
  ultimately have "distinct (map fst (AList.delete i bps @ vs))"
    using ok unfolding entries_ok_def map_append distinct_append set_map by blast
  with sub ok show ?thesis unfolding entries_ok_def by blast
qed

lemma threads_ok_mono:
  assumes "threads_ok n running ts" and "unat n \<le> unat m" and "running \<subseteq> running'"
  shows "threads_ok m running' ts"
proof -
  have "unat i < unat m" if "unat i < unat n" for i :: u64
    using that assms(2) by (rule less_le_trans)
  then show ?thesis using assms(1,3) unfolding threads_ok_def by blast
qed

lemma closing_ok_mono:
  assumes "closing_ok n listed closing" and "unat n \<le> unat m" and "listed' \<subseteq> insert n listed"
    and "closing' \<subseteq> closing"
  shows "closing_ok m listed' closing'"
proof -
  have "unat i < unat m \<and> i \<noteq> n" if "unat i < unat n" for i :: u64
    using that assms(2) by auto
  then show ?thesis using assms(1,3,4) unfolding closing_ok_def by blast
qed

lemma stop_ids [simp]: "map pt_id (stop i ts) = map pt_id ts"
  by (simp add: stop_def)

lemma threads_ok_stop:
  assumes "threads_ok n running ts" and "running \<subseteq> running' \<union> {i}"
  shows "threads_ok n running' (stop i ts)"
proof -
  have "0 < unat (pt_id t) \<and> unat (pt_id t) < unat n \<and> (pt_cancel t \<or> pt_id t \<in> running')" if "t \<in> set (stop i ts)" for t
  proof -
    from that obtain u where u: "u \<in> set ts" "t = (if pt_id u = i then u\<lparr>pt_cancel := True\<rparr> else u)"
      by (auto simp: stop_def)
    then have "0 < unat (pt_id u) \<and> unat (pt_id u) < unat n \<and> (pt_cancel u \<or> pt_id u \<in> running)"
      using assms(1) by (simp add: threads_ok_def)
    with u(2) assms(2) show ?thesis by (cases "pt_id u = i") auto
  qed
  then show ?thesis using assms(1) by (simp add: threads_ok_def)
qed

lemma threads_ok_add:
  "threads_ok n running ts \<Longrightarrow> unat n < unat m \<Longrightarrow> 0 < unat n \<Longrightarrow> pt_id t = n \<Longrightarrow>
     threads_ok m (insert n running) (ts @ [t])"
  using threads_ok_mono [of n running ts m "insert n running"]
  by (auto simp: threads_ok_def)

lemma threads_ok_remove: "threads_ok n running ts \<Longrightarrow> threads_ok n running (take j ts @ drop (Suc j) ts)"
proof -
  assume ok: "threads_ok n running ts"
  have "set (take j ts @ drop (Suc j) ts) \<subseteq> set ts"
    using set_take_subset [of j ts] set_drop_subset [of "Suc j" ts] by simp
  moreover have "map pt_id (take j ts @ drop (Suc j) ts) = take j (map pt_id ts) @ drop (Suc j) (map pt_id ts)"
    by (simp add: take_map drop_map)
  moreover have "distinct (take j (map pt_id ts) @ drop (Suc j) (map pt_id ts))"
    using ok set_take_disj_set_drop_if_distinct [of "map pt_id ts" j "Suc j"]
    unfolding threads_ok_def by (simp only: distinct_append distinct_take distinct_drop)
  ultimately show ?thesis using ok unfolding threads_ok_def by auto
qed

lemma threads_ok_update:
  assumes "threads_ok n running ts" and "j < length ts"
  shows "threads_ok n running (ts[j := (ts ! j)\<lparr>pt_phase := ph, pt_errors := c\<rparr>])"
proof -
  let ?u = "(ts ! j)\<lparr>pt_phase := ph, pt_errors := c\<rparr>"
  have "map pt_id (ts[j := ?u]) = map pt_id ts"
    using assms(2) by (simp add: map_update) (metis list_update_id nth_map)
  moreover have "0 < unat (pt_id t) \<and> unat (pt_id t) < unat n \<and> (pt_cancel t \<or> pt_id t \<in> running)"
    if "t \<in> set (ts[j := ?u])" for t
  proof -
    from that have "t = ?u \<or> t \<in> set ts" using set_update_subset_insert by fast
    moreover have "ts ! j \<in> set ts" using assms(2) by simp
    ultimately show ?thesis using assms(1) unfolding threads_ok_def by auto
  qed
  ultimately show ?thesis using assms(1) unfolding threads_ok_def by simp
qed

text \<open>One step of a creation, then of a deletion, on the table and the threads.\<close>

lemma live_maps [simp]: "live_entries (s\<lparr>sv_maps := c\<rparr>) fl = live_entries s fl"
  by (simp add: live_entries_def)

lemma server_inv_maps [simp]: "server_inv (s\<lparr>sv_maps := c\<rparr>) fl = server_inv s fl"
  by (simp add: server_inv_def breakpoints_inv_def hits_inv_def)

lemma start_breakpoint_inv:
  assumes "server_inv s fl" and "sv_next_breakpoint_id s \<noteq> -1"
    and "start_breakpoint env t rq ty_len resolved flt s k = (r, (s', k'))"
  shows "case r of Inl e \<Rightarrow> server_inv s' fl
    | Inr v \<Rightarrow> server_inv s' (fl\<lparr>fl_opening := v # fl_opening fl\<rparr>) \<and> bv_id v = sv_next_breakpoint_id s"
proof -
  let ?i = "sv_next_breakpoint_id s" and ?live = "live_entries s fl"
  let ?config = "request_config rq ty_len resolved flt"
  note nx = unat_succ [OF assms(2)]
  have inv: "breakpoints_inv s fl" "hits_inv s" using assms(1) by (simp_all add: server_inv_def)
  then have pos: "0 < unat ?i" by (simp add: breakpoints_inv_def)
  obtain o1 k1 where w: "start_watch (en_sys env) (en_kernel env) (en_tasks env) ?config k = (o1, k1)" by fastforce
  have h: "hits_inv (s\<lparr>sv_next_breakpoint_id := n, sv_threads := ts\<rparr>)" for n ts
    using inv(2) by (simp add: hits_inv_def)
  show ?thesis
  proof (cases o1)
    case (Inl e)
    then have r: "r = Inl (Watch_Error e)" "s' = s\<lparr>sv_next_breakpoint_id := ?i + 1\<rparr>"
      using w assms(3) by (simp_all add: start_breakpoint_def Let_def)
    then have "live_entries s' fl = ?live" by (simp add: live_entries_def)
    moreover have "entries_ok (?i + 1) ?live" "closing_ok (?i + 1) (fst ` set ?live) (set (fl_closing fl))"
      "threads_ok (?i + 1) (fst ` set ?live \<union> set (fl_closing fl)) (sv_threads s)"
      using inv(1) nx entries_ok_mono [of ?i ?live "?i + 1"] closing_ok_mono [of ?i "fst ` set ?live" "set (fl_closing fl)" "?i + 1" "fst ` set ?live" "set (fl_closing fl)"]
        threads_ok_mono [where n = ?i and m = "?i + 1" and ts = "sv_threads s"
            and running = "fst ` set ?live \<union> set (fl_closing fl)" and running' = "fst ` set ?live \<union> set (fl_closing fl)"]
      by (simp_all add: breakpoints_inv_def subset_insertI)
    ultimately have "breakpoints_inv s' fl"
      using inv(1) nx r(2) by (simp add: breakpoints_inv_def)
    then show ?thesis using r h [where n = "?i + 1" and ts = "sv_threads s"] by (simp add: server_inv_def)
  next
    case (Inr p)
    obtain st wt where p: "p = (st, wt)" by fastforce
    let ?t = "\<lparr>pt_id = ?i, pt_pid = cq_pid rq, pt_watcher = wt, pt_cancel = False, pt_phase = Between, pt_errors = 0\<rparr>"
    let ?v = "make_view ?i ?config resolved st (tm_clock t)"
    have id: "bv_id ?v = ?i" by (simp add: make_view_def)
    have r: "r = Inr ?v" "s' = s\<lparr>sv_next_breakpoint_id := ?i + 1, sv_threads := sv_threads s @ [?t]\<rparr>"
      using w Inr p assms(3) by (simp_all add: start_breakpoint_def Let_def)
    let ?fl = "fl\<lparr>fl_opening := ?v # fl_opening fl\<rparr>"
    have live: "live_entries s' ?fl = sv_breakpoints s @ (?i, ?v) # map (\<lambda>v. (bv_id v, v)) (fl_opening fl)"
      using r id by (simp add: live_entries_def)
    then have keys: "fst ` set (live_entries s' ?fl) = insert ?i (fst ` set ?live)"
      by (simp add: live_entries_def image_Un)
    have "entries_ok (?i + 1) (live_entries s' ?fl)"
      using inv(1) pos nx id unfolding live by (intro entries_ok_add) (simp_all add: breakpoints_inv_def live_entries_def)
    moreover have "closing_ok (?i + 1) (fst ` set (live_entries s' ?fl)) (set (fl_closing fl))"
      unfolding keys
    proof (rule closing_ok_mono)
      show "closing_ok ?i (fst ` set ?live) (set (fl_closing fl))" using inv(1) by (simp add: breakpoints_inv_def)
    qed (simp_all add: nx)
    moreover have "threads_ok (?i + 1) (fst ` set (live_entries s' ?fl) \<union> set (fl_closing fl)) (sv_threads s @ [?t])"
      using inv(1) pos nx threads_ok_add [of ?i _ "sv_threads s" "?i + 1" ?t]
      unfolding keys breakpoints_inv_def by simp
    ultimately have "breakpoints_inv s' ?fl"
      using inv(1) nx r by (simp add: breakpoints_inv_def)
    then show ?thesis using r id h by (simp add: server_inv_def)
  qed
qed

lemma prepare_breakpoint_cases:
  assumes "prepare_breakpoint env t rq (s, k) = (r, (s', k'))"
  obtains e c where "r = Inl e" "s' = s\<lparr>sv_maps := c\<rparr>"
  | ty_len resolved flt c k1 where
    "parse_watchpoint_type (en_sys env) (cq_type_name rq) = Some ty_len"
    "resolve_expression (pf_text (en_fs env)) (tm_first t) (tm_second t) (cq_pid rq) (cq_addr rq) (sv_maps s) k
        = (Inr resolved, c, k1)"
    "parse_filter_option (en_arch env) (cq_filter rq) = Inr flt"
    "start_breakpoint env t rq ty_len resolved flt (s\<lparr>sv_maps := c\<rparr>) k1 = (r, (s', k'))"
proof -
  have "(\<exists>e c. r = Inl e \<and> s' = s\<lparr>sv_maps := c\<rparr>) \<or> (\<exists>ty_len resolved flt c k1.
    parse_watchpoint_type (en_sys env) (cq_type_name rq) = Some ty_len
    \<and> resolve_expression (pf_text (en_fs env)) (tm_first t) (tm_second t) (cq_pid rq) (cq_addr rq) (sv_maps s) k
        = (Inr resolved, c, k1)
    \<and> parse_filter_option (en_arch env) (cq_filter rq) = Inr flt
    \<and> start_breakpoint env t rq ty_len resolved flt (s\<lparr>sv_maps := c\<rparr>) k1 = (r, (s', k')))"
  proof (cases "parse_watchpoint_type (en_sys env) (cq_type_name rq)")
    case None
    then have "r = Inl (InvalidType (cq_type_name rq)) \<and> s' = s\<lparr>sv_maps := sv_maps s\<rparr>"
      using assms by (simp add: prepare_breakpoint_def)
    then show ?thesis by blast
  next
    case (Some ty_len)
    then show ?thesis using assms
      by (fastforce simp: prepare_breakpoint_def Let_def split: prod.splits sum.splits)
  qed
  with that show thesis by blast
qed

lemma prepare_inv:
  assumes "server_inv s fl" and "sv_next_breakpoint_id s \<noteq> -1" and "prepare_breakpoint env t rq (s, k) = (r, (s', k'))"
  shows "case r of Inl e \<Rightarrow> server_inv s' fl | Inr v \<Rightarrow> server_inv s' (fl\<lparr>fl_opening := v # fl_opening fl\<rparr>)"
  using assms(3)
proof (cases rule: prepare_breakpoint_cases)
  case (1 e c)
  then show ?thesis using assms(1) by simp
next
  case (2 ty_len resolved flt c k1)
  from start_breakpoint_inv [OF _ _ 2(4), of fl] assms(1,2) show ?thesis by (auto split: sum.splits)
qed

lemma insert_mset:
  assumes "breakpoints_inv s fl" and "v \<in> set (fl_opening fl)"
  shows "snd (insert_breakpoint v s) = s\<lparr>sv_breakpoints := sv_breakpoints s @ [(bv_id v, v)]\<rparr>"
    and "mset (live_entries (snd (insert_breakpoint v s)) (fl\<lparr>fl_opening := remove1 v (fl_opening fl)\<rparr>))
      = mset (live_entries s fl)"
proof -
  have "bv_id v \<notin> fst ` set (sv_breakpoints s)"
    using assms by (auto simp: breakpoints_inv_def entries_ok_def live_entries_def)
  then show i: "snd (insert_breakpoint v s) = s\<lparr>sv_breakpoints := sv_breakpoints s @ [(bv_id v, v)]\<rparr>"
    using assms(1) by (simp add: insert_breakpoint_def update_fresh breakpoints_inv_def)
  have "mset (fl_opening fl) = add_mset v (mset (remove1 v (fl_opening fl)))" using assms(2) by simp
  then show "mset (live_entries (snd (insert_breakpoint v s)) (fl\<lparr>fl_opening := remove1 v (fl_opening fl)\<rparr>))
      = mset (live_entries s fl)"
    unfolding i by (simp add: live_entries_def image_mset_add_mset [symmetric] del: mset_remove1)
qed

lemma insert_inv:
  assumes "server_inv s fl" and "v \<in> set (fl_opening fl)"
  shows "server_inv (snd (insert_breakpoint v s)) (fl\<lparr>fl_opening := remove1 v (fl_opening fl)\<rparr>)"
proof -
  let ?s = "snd (insert_breakpoint v s)" and ?fl = "fl\<lparr>fl_opening := remove1 v (fl_opening fl)\<rparr>"
  have inv: "breakpoints_inv s fl" using assms(1) by (simp add: server_inv_def)
  note i = insert_mset(1) [OF inv assms(2)] and m = insert_mset(2) [OF inv assms(2)]
  have "set (live_entries ?s ?fl) = set (live_entries s fl)" using m by (rule mset_eq_setD)
  then have "breakpoints_inv ?s ?fl"
    using inv entries_ok_mset [OF m] unfolding breakpoints_inv_def by (simp add: i)
  then show ?thesis using assms(1) by (simp add: server_inv_def hits_inv_def i)
qed

lemma unlist_inv:
  assumes "server_inv s fl" and "map_of (sv_breakpoints s) i \<noteq> None"
  shows "server_inv (s\<lparr>sv_breakpoints := AList.delete i (sv_breakpoints s)\<rparr>) (fl\<lparr>fl_closing := i # fl_closing fl\<rparr>)"
proof -
  let ?s = "s\<lparr>sv_breakpoints := AList.delete i (sv_breakpoints s)\<rparr>" and ?fl = "fl\<lparr>fl_closing := i # fl_closing fl\<rparr>"
  let ?n = "sv_next_breakpoint_id s"
  have inv: "breakpoints_inv s fl" using assms(1) by (simp add: server_inv_def)
  then have e: "entries_ok ?n (sv_breakpoints s @ map (\<lambda>v. (bv_id v, v)) (fl_opening fl))"
    by (simp add: breakpoints_inv_def live_entries_def)
  have i: "i \<in> fst ` set (sv_breakpoints s)" using assms(2) by (simp add: map_of_eq_None_iff)
  then have "i \<notin> bv_id ` set (fl_opening fl)" "unat i < unat ?n" using e by (auto simp: entries_ok_def dest: bspec)
  moreover have keys: "fst ` set (live_entries ?s ?fl) = fst ` set (sv_breakpoints s) - {i} \<union> bv_id ` set (fl_opening fl)"
    by (auto simp: live_entries_def AList.delete_eq image_Un image_image)
  moreover have keys': "fst ` set (live_entries s fl) = fst ` set (sv_breakpoints s) \<union> bv_id ` set (fl_opening fl)"
    by (simp add: live_entries_def image_Un image_image)
  ultimately have "closing_ok ?n (fst ` set (live_entries ?s ?fl)) (set (fl_closing ?fl))"
    using inv by (simp add: breakpoints_inv_def closing_ok_def)
  moreover have "threads_ok ?n (fst ` set (live_entries ?s ?fl) \<union> set (fl_closing ?fl)) (sv_threads s)"
  proof (rule threads_ok_mono)
    show "threads_ok ?n (fst ` set (live_entries s fl) \<union> set (fl_closing fl)) (sv_threads s)"
      using inv by (simp add: breakpoints_inv_def)
  qed (auto simp: keys keys')
  moreover have "entries_ok ?n (live_entries ?s ?fl)"
    using entries_ok_delete [OF e, of i] by (simp add: live_entries_def)
  ultimately have "breakpoints_inv ?s ?fl" using inv by (simp add: breakpoints_inv_def)
  then show ?thesis using assms(1) by (simp add: server_inv_def hits_inv_def)
qed

lemma stop_inv:
  assumes "server_inv s fl" and "i \<in> set (fl_closing fl)"
  shows "server_inv (s\<lparr>sv_threads := stop i (sv_threads s)\<rparr>) (fl\<lparr>fl_closing := remove1 i (fl_closing fl)\<rparr>)"
proof -
  let ?s = "s\<lparr>sv_threads := stop i (sv_threads s)\<rparr>" and ?fl = "fl\<lparr>fl_closing := remove1 i (fl_closing fl)\<rparr>"
  have inv: "breakpoints_inv s fl" using assms(1) by (simp add: server_inv_def)
  have live: "live_entries ?s ?fl = live_entries s fl" by (simp add: live_entries_def)
  have "set (remove1 i (fl_closing fl)) \<subseteq> set (fl_closing fl)" by (rule set_remove1_subset)
  moreover have "fst ` set (live_entries s fl) \<union> set (fl_closing fl)
      \<subseteq> (fst ` set (live_entries s fl) \<union> set (remove1 i (fl_closing fl))) \<union> {i}"
    by (auto simp: in_set_remove1)
  ultimately have "breakpoints_inv ?s ?fl"
    using inv unfolding breakpoints_inv_def live
    by (auto intro: threads_ok_stop closing_ok_mono [OF _ order_refl])
  then show ?thesis using assms(1) by (simp add: server_inv_def hits_inv_def)
qed

lemma run_inv:
  assumes "P sk" and "P (snd (job sk))" and "not_panic v"
  shows "P (snd (run v job sk))"
  using assms by (cases v) (auto simp: not_panic_def split: prod.splits)

text \<open>A request on the maps cache changes nothing but the cache.\<close>

lemma with_maps_cache:
  assumes "not_panic v"
  shows "\<exists>c. fst (snd (answer_maps (run v (with_maps job) sk))) = (fst sk)\<lparr>sv_maps := c\<rparr>"
proof -
  have "\<exists>c. fst (snd (with_maps job sk)) = (fst sk)\<lparr>sv_maps := c\<rparr>" by (auto simp: with_maps_def split: prod.split)
  moreover have "\<exists>c. fst sk = (fst sk)\<lparr>sv_maps := c\<rparr>" by (intro exI [of _ "sv_maps (fst sk)"]) simp
  ultimately have "\<exists>c. fst (snd (run v (with_maps job) sk)) = (fst sk)\<lparr>sv_maps := c\<rparr>"
    using run_inv [where P = "\<lambda>sk'. \<exists>c. fst sk' = (fst sk)\<lparr>sv_maps := c\<rparr>", OF _ _ assms] by blast
  then show ?thesis by (auto simp: answer_maps_def split: prod.splits sum.splits)
qed

lemma poll_step_inv:
  assumes "server_inv s fl"
  shows "server_inv (fst (poll_step env ptr j (s, k))) fl"
proof (cases "j < length (sv_threads s)")
  case True
  let ?t = "sv_threads s ! j"
  obtain out st k1 where l: "watch_step (en_kernel env) ptr (pt_watcher ?t) (pt_cancel ?t) (pt_phase ?t) (pt_errors ?t) k = (out, st, k1)"
    by (metis prod_cases3)
  define s1 where "s1 = fold (offer_sample (pt_id ?t) (pt_pid ?t)) out s"
  have tab: "table_of s1 = table_of s" by (simp add: s1_def)
  have h1: "hits_inv s1" unfolding s1_def using assms by (intro fold_offer_inv) (simp add: server_inv_def)
  have b1: "breakpoints_inv s1 fl" using assms breakpoints_inv_cong [OF tab] by (simp add: server_inv_def)
  have ts: "sv_threads s1 = sv_threads s" using tab by (simp add: table_of_def)
  have keep: "server_inv (s1\<lparr>sv_threads := us\<rparr>) fl"
    if "threads_ok (sv_next_breakpoint_id s1) (fst ` set (live_entries s1 fl) \<union> set (fl_closing fl)) us" for us
    using h1 b1 that by (simp add: server_inv_def breakpoints_inv_def hits_inv_def live_entries_def)
  show ?thesis
  proof (cases st)
    case None
    have "threads_ok (sv_next_breakpoint_id s1) (fst ` set (live_entries s1 fl) \<union> set (fl_closing fl))
        (take j (sv_threads s) @ drop (Suc j) (sv_threads s))"
      using b1 ts by (intro threads_ok_remove) (simp add: breakpoints_inv_def)
    from keep [OF this] show ?thesis using True l None by (simp add: poll_step_def s1_def Let_def)
  next
    case (Some p)
    obtain ph c where p: "p = (ph, c)" by fastforce
    have "threads_ok (sv_next_breakpoint_id s1) (fst ` set (live_entries s1 fl) \<union> set (fl_closing fl))
        ((sv_threads s)[j := ?t\<lparr>pt_phase := ph, pt_errors := c\<rparr>])"
      using b1 ts True by (intro threads_ok_update) (simp_all add: breakpoints_inv_def)
    from keep [OF this] show ?thesis using True l Some p by (simp add: poll_step_def s1_def Let_def)
  qed
qed (simp add: poll_step_def assms)

lemma server_inv_memory [simp]: "server_inv s (fl\<lparr>fl_memory := fds\<rparr>) \<longleftrightarrow> server_inv s fl"
  by (simp add: server_inv_def breakpoints_inv_def live_entries_def)

lemma server_step_inv: "server_step env x y \<Longrightarrow> server_inv (fst x) (fst (snd x)) \<Longrightarrow> server_inv (fst y) (fst (snd y))"
proof (induction rule: server_step.induct)
  case (step_prepare_failed s t rq k e s' k' fl)
  then show ?case using prepare_inv [of s fl env t rq k "Inl e" s' k'] by simp
next
  case (step_prepare s t rq k v s' k' fl)
  then show ?case using prepare_inv [of s fl env t rq k "Inr v" s' k'] by simp
next
  case (step_maps v now pid s k s' k' fl)
  then show ?case
    using with_maps_cache [of v _ "(s, k)"] by (metis fst_conv list_maps_handler_def server_inv_maps snd_conv)
next
  case (step_resolve v t pid addr s k s' k' fl)
  then show ?case
    using with_maps_cache [of v _ "(s, k)"] by (metis fst_conv resolve_address_def server_inv_maps snd_conv)
next
  case (step_poll ptr j s k s' k' fl)
  then show ?case using poll_step_inv [of s fl env ptr j k] by simp
next
  case (step_worker t fl s k ph s' k')
  then show ?case using worker_step_inv [of s fl env t "fl_worker fl" k ph s' k' ph] by simp
qed (simp_all add: insert_inv unlist_inv stop_inv)

definition server_start :: "'k system \<Rightarrow> bool" where
  "server_start x \<longleftrightarrow> (\<exists>limit started k. x = (initial_server limit started, no_inflight, k))"

interpretation srv: invariant_system server_start "server_step env" "\<lambda>x. server_inv (fst x) (fst (snd x))"
  for env :: "'k env"
  by unfold_locales (auto simp: server_start_def server_inv_initial intro: server_step_inv)

end
