(* ===== verification/Server_Properties.thy ===== *)
theory Server_Properties
  imports Server_Safety
begin

section \<open>What the server does for its clients\<close>

text \<open>
  The answers of the handlers and the effects of the background threads, in every state the server
  can reach from its start, and a run on the demonstration kernel at which they are applied: a
  breakpoint is created, polled, and its sample turned into a hit.
\<close>

subsection \<open>Lemmas\<close>

lemma last_n_ge: "n \<le> m \<Longrightarrow> last_n m (last_n n xs) = last_n n xs"
  by (rule last_n_all) simp

lemma last_n_min: "last_n m (last_n n xs) = last_n (min m n) xs"
  by (cases "m \<le> n") (simp_all add: last_n_last_n last_n_ge min_def)

lemma last_n_map: "map f (last_n n xs) = last_n n (map f xs)"
  by (simp add: last_n_def drop_map)

lemma last_n_upt: "last_n n [1..<Suc m] = [Suc m - min n m..<Suc m]"
proof -
  have "1 + (Suc m - 1 - n) = Suc m - min n m" by auto
  then show ?thesis by (simp only: last_n_def drop_upt length_upt)
qed

abbreviation reachable :: "'k env \<Rightarrow> 'k system \<Rightarrow> bool" where
  "reachable env x \<equiv> (\<exists>x0. server_start x0 \<and> (server_step env)\<^sup>*\<^sup>* x0 x)"

lemma reachable_inv: "reachable env (s, fl, k) \<Longrightarrow> breakpoints_inv s fl \<and> hits_inv s"
  using srv.inv_reachable [of _ env "(s, fl, k)"] by (auto simp: server_inv_def)

lemma reachable_start: "reachable env (initial_server limit started, no_inflight, k)"
  by (intro exI [of _ "(initial_server limit started, no_inflight, k)"]) (auto simp: server_start_def)

lemma reachable_step: "reachable env x \<Longrightarrow> server_step env x y \<Longrightarrow> reachable env y"
  by (blast intro: rtranclp.rtrancl_into_rtrancl)

text \<open>The handlers of creation and deletion, when nothing comes between, are runs of steps.\<close>

lemma create_inner_steps:
  assumes "sv_next_breakpoint_id s \<noteq> -1" and "create_breakpoint_inner env t rq (s, k) = (r, (s', k'))"
  shows "(server_step env)\<^sup>*\<^sup>* (s, fl, k) (s', fl, k')"
proof -
  obtain r1 s1 k1 where p: "prepare_breakpoint env t rq (s, k) = (r1, (s1, k1))" by (metis prod_cases3)
  show ?thesis
  proof (cases r1)
    case (Inl e)
    with p assms(2) have "s' = s1" "k' = k1" by (simp_all add: create_breakpoint_inner_def)
    with step_prepare_failed [OF assms(1) p [unfolded Inl], of fl] show ?thesis by blast
  next
    case (Inr v)
    with p assms(2) have "s' = snd (insert_breakpoint v s1)" "k' = k1"
      by (auto simp: create_breakpoint_inner_def split: prod.splits)
    moreover have "server_step env (s, fl, k) (s1, fl\<lparr>fl_opening := v # fl_opening fl\<rparr>, k1)"
      using step_prepare [OF assms(1) p [unfolded Inr]] .
    moreover have "server_step env (s1, fl\<lparr>fl_opening := v # fl_opening fl\<rparr>, k1) (snd (insert_breakpoint v s1), fl, k1)"
      using step_insert [of v "fl\<lparr>fl_opening := v # fl_opening fl\<rparr>" env s1 k1] by simp
    ultimately show ?thesis by (meson r_into_rtranclp rtranclp.rtrancl_into_rtrancl)
  qed
qed

lemma create_steps:
  assumes "sv_next_breakpoint_id s \<noteq> -1" and "not_panic v" and "create_breakpoint env t v rq (s, k) = (r, (s', k'))"
  shows "(server_step env)\<^sup>*\<^sup>* (s, fl, k) (s', fl, k')"
proof -
  obtain r1 s1 k1 where c: "create_breakpoint_inner env t rq (s, k) = (r1, (s1, k1))" by (metis prod_cases3)
  have "(s', k') = (s, k) \<or> (s', k') = (s1, k1)"
    using assms(2,3) c by (cases v) (auto simp: create_breakpoint_def not_panic_def split: sum.splits)
  then show ?thesis using create_inner_steps [OF assms(1) c, of fl] by auto
qed

lemma delete_steps:
  assumes "delete_breakpoint busy i s = (r, s')"
  shows "(server_step env)\<^sup>*\<^sup>* (s, fl, k) (s', fl, k)"
proof (cases "try_lock busy (sv_breakpoints_poisoned s) = Acquired \<and> map_of (sv_breakpoints s) i \<noteq> None")
  case False
  then have "s' = s" using assms by (auto simp: delete_breakpoint_def split: lock_state.splits option.splits)
  then show ?thesis by simp
next
  case True
  let ?s1 = "s\<lparr>sv_breakpoints := AList.delete i (sv_breakpoints s)\<rparr>" and ?fl = "fl\<lparr>fl_closing := i # fl_closing fl\<rparr>"
  have np: "\<not> sv_breakpoints_poisoned s" and i: "map_of (sv_breakpoints s) i \<noteq> None"
    using True by (auto simp: try_lock_def split: if_splits)
  have "s' = ?s1\<lparr>sv_threads := stop i (sv_threads ?s1)\<rparr>"
    using assms True by (auto simp: delete_breakpoint_def)
  then have "server_step env (?s1, ?fl, k) (s', fl, k)"
    using step_stop [of i ?fl env ?s1 k] by simp
  moreover have "server_step env (s, fl, k) (?s1, ?fl, k)" by (rule step_unlist) (rule np, rule i)
  ultimately show ?thesis by (meson r_into_rtranclp rtranclp.rtrancl_into_rtrancl)
qed

text \<open>
  So are the memory handlers: whatever the runtime does with the job, short of a panic, it opens the
  driver, makes its call and closes the driver, or does nothing at all.
\<close>

lemma three_steps: "R a b \<Longrightarrow> R b c \<Longrightarrow> R c d \<Longrightarrow> R\<^sup>*\<^sup>* a d"
  by (meson r_into_rtranclp rtranclp.rtrancl_into_rtrancl)

lemma read_job_steps:
  "(server_step env)\<^sup>*\<^sup>* (s, fl, k) (s, fl, snd (read_job (en_sys env) (en_kernel env) ptr pid a n k))"
proof -
  obtain q k1 where o: "driver_open (en_sys env) (en_kernel env) k = (q, k1)" by fastforce
  show ?thesis
  proof (cases q)
    case (Inl e)
    with o step_memory_open_failed [OF o [unfolded Inl], of s fl] show ?thesis by (simp add: read_job_def)
  next
    case (Inr fd)
    let ?fl = "fl\<lparr>fl_memory := fd # fl_memory fl\<rparr>"
    obtain d k2 where d: "driver_read_memory (en_kernel env) ptr fd pid a n k1 = (d, k2)" by fastforce
    have "server_step env (s, fl, k) (s, ?fl, k1)" by (rule step_memory_open [OF o [unfolded Inr]])
    moreover have "server_step env (s, ?fl, k1) (s, ?fl, k2)" by (rule step_memory_read [OF _ d]) simp
    moreover have "server_step env (s, ?fl, k2) (s, fl, driver_drop (en_kernel env) fd k2)"
      using step_memory_close [of fd ?fl env s k2] by simp
    ultimately have "(server_step env)\<^sup>*\<^sup>* (s, fl, k) (s, fl, driver_drop (en_kernel env) fd k2)"
      by (rule three_steps)
    with o Inr d show ?thesis by (simp add: read_job_def)
  qed
qed

lemma write_job_steps:
  "(server_step env)\<^sup>*\<^sup>* (s, fl, k) (s, fl, snd (write_job (en_sys env) (en_kernel env) ptr pid a data k))"
proof -
  obtain q k1 where o: "driver_open (en_sys env) (en_kernel env) k = (q, k1)" by fastforce
  show ?thesis
  proof (cases q)
    case (Inl e)
    with o step_memory_open_failed [OF o [unfolded Inl], of s fl] show ?thesis by (simp add: write_job_def)
  next
    case (Inr fd)
    let ?fl = "fl\<lparr>fl_memory := fd # fl_memory fl\<rparr>"
    obtain d k2 where d: "driver_write_memory (en_kernel env) ptr fd pid a data k1 = (d, k2)" by fastforce
    have "server_step env (s, fl, k) (s, ?fl, k1)" by (rule step_memory_open [OF o [unfolded Inr]])
    moreover have "server_step env (s, ?fl, k1) (s, ?fl, k2)" by (rule step_memory_write [OF _ d]) simp
    moreover have "server_step env (s, ?fl, k2) (s, fl, driver_drop (en_kernel env) fd k2)"
      using step_memory_close [of fd ?fl env s k2] by simp
    ultimately have "(server_step env)\<^sup>*\<^sup>* (s, fl, k) (s, fl, driver_drop (en_kernel env) fd k2)"
      by (rule three_steps)
    with o Inr d show ?thesis by (simp add: write_job_def)
  qed
qed

lemma run_steps:
  assumes "not_panic v" and "(server_step env)\<^sup>*\<^sup>* (s, fl, k) (s, fl, snd (job k))"
  shows "(server_step env)\<^sup>*\<^sup>* (s, fl, k) (s, fl, snd (run v job k))"
  using assms by (cases v) (auto simp: not_panic_def split: prod.splits)

lemma read_memory_steps:
  "not_panic v \<Longrightarrow>
     (server_step env)\<^sup>*\<^sup>* (s, fl, k) (s, fl, snd (read_memory (en_sys env) (en_kernel env) ptr v query k))"
  by (auto simp: read_memory_def split: sum.splits intro!: run_steps read_job_steps)

lemma write_memory_steps:
  "not_panic v \<Longrightarrow>
     (server_step env)\<^sup>*\<^sup>* (s, fl, k) (s, fl, snd (write_memory (en_sys env) (en_kernel env) ptr v payload k))"
  by (auto simp: write_memory_def split: sum.splits intro!: run_steps write_job_steps)

lemma reachable_steps: "reachable env x \<Longrightarrow> (server_step env)\<^sup>*\<^sup>* x y \<Longrightarrow> reachable env y"
  by (meson rtranclp_trans)

text \<open>So are the steps of the worker, and a whole turn of it.\<close>

lemma same_worker: "fl_worker fl = ph \<Longrightarrow> fl\<lparr>fl_worker := ph\<rparr> = fl"
  by (cases fl) simp

lemma worker_run_steps:
  "fold (worker_step env) ts (fl_worker fl, s, k) = (ph, s', k') \<Longrightarrow>
     (server_step env)\<^sup>*\<^sup>* (s, fl, k) (s', fl\<lparr>fl_worker := ph\<rparr>, k')"
proof (induction ts arbitrary: fl s k)
  case (Cons t ts)
  obtain ph1 s1 k1 where w: "worker_step env t (fl_worker fl, s, k) = (ph1, s1, k1)" by (metis prod_cases3)
  with Cons have "(server_step env)\<^sup>*\<^sup>* (s1, fl\<lparr>fl_worker := ph1\<rparr>, k1) (s', fl\<lparr>fl_worker := ph\<rparr>, k')"
    using Cons.IH [of "fl\<lparr>fl_worker := ph1\<rparr>" s1 k1] by simp
  with step_worker [OF w] show ?case by (rule converse_rtranclp_into_rtranclp)
qed (simp add: same_worker)

lemma worker_turn_cases:
  obtains "sv_queue s = []" "fold (worker_step env) (replicate 4 t) (Waiting, s, k) = (Waiting, s, k)"
  | q qs c regs bt k' where "sv_queue s = q # qs"
    "fold (worker_step env) (replicate 4 t) (Waiting, s, k) =
       (Waiting,
        push_hit (fst (make_hit_with_maps (en_arch env) (tm_clock t) (qs_breakpoint_id q) (qs_data q) regs bt (sv_hit_factory s)))
          (s\<lparr>sv_queue := qs, sv_maps := c, sv_hit_factory := \<lparr>hf_next_seq = hf_next_seq (sv_hit_factory s) + 1\<rparr>\<rparr>), k')"
proof (cases "sv_queue s")
  case Nil
  then show thesis using that(1) by (simp add: eval_nat_numeral)
next
  case (Cons q qs)
  let ?s0 = "s\<lparr>sv_queue := qs\<rparr>"
  have 0: "worker_step env t (Waiting, s, k) = (Took q, ?s0, k)" using Cons by simp
  obtain ph1 s1 k1 where 1: "worker_step env t (Took q, ?s0, k) = (ph1, s1, k1)" by (metis prod_cases3)
  then obtain regs c1 where r: "ph1 = Resolved_Regs q regs" "s1 = ?s0\<lparr>sv_maps := c1\<rparr>"
    by (rule worker_step_cases) simp_all
  obtain ph2 s2 k2 where 2: "worker_step env t (Resolved_Regs q regs, s1, k1) = (ph2, s2, k2)" by (metis prod_cases3)
  then obtain bt c2 where b: "ph2 = Resolved q regs bt" "s2 = s1\<lparr>sv_maps := c2\<rparr>"
    by (rule worker_step_cases) simp_all
  obtain ph3 s3 k3 where 3: "worker_step env t (Resolved q regs bt, s2, k2) = (ph3, s3, k3)" by (metis prod_cases3)
  then have "ph3 = Waiting \<and> s3 = push_hit (fst (make_hit_with_maps (en_arch env) (tm_clock t) (qs_breakpoint_id q) (qs_data q) regs bt (sv_hit_factory s)))
          (s\<lparr>sv_queue := qs, sv_maps := c2, sv_hit_factory := \<lparr>hf_next_seq = hf_next_seq (sv_hit_factory s) + 1\<rparr>\<rparr>)"
    by (rule worker_step_cases) (simp_all add: r b)
  with 0 1 2 3 r b have "fold (worker_step env) (replicate 4 t) (Waiting, s, k) =
       (Waiting, push_hit (fst (make_hit_with_maps (en_arch env) (tm_clock t) (qs_breakpoint_id q) (qs_data q) regs bt (sv_hit_factory s)))
          (s\<lparr>sv_queue := qs, sv_maps := c2, sv_hit_factory := \<lparr>hf_next_seq = hf_next_seq (sv_hit_factory s) + 1\<rparr>\<rparr>), k3)"
    by (simp add: eval_nat_numeral del: worker_step.simps)
  with Cons show thesis by (rule that(2))
qed

lemma worker_turn_steps:
  assumes "fl_worker fl = Waiting" and "hit_worker_turn env t (s, k) = (s', k')"
  shows "(server_step env)\<^sup>*\<^sup>* (s, fl, k) (s', fl, k')"
proof -
  have "fst (fold (worker_step env) (replicate 4 t) (Waiting, s, k)) = Waiting"
    by (rule worker_turn_cases [of s env t k]) simp_all
  then have "fold (worker_step env) (replicate 4 t) (fl_worker fl, s, k) = (Waiting, s', k')"
    using assms by (cases "fold (worker_step env) (replicate 4 t) (Waiting, s, k)") (simp add: hit_worker_turn_def)
  from worker_run_steps [OF this] show ?thesis by (simp add: same_worker assms(1))
qed

lemma start_breakpoint_ok:
  assumes "start_breakpoint env t rq ty_len resolved flt s k = (Inr view, s', k')"
  shows "\<exists>start w. start_watch (en_sys env) (en_kernel env) (en_tasks env)
        (request_config rq ty_len resolved flt) k = (Inr (start, w), k')
      \<and> view = make_view (sv_next_breakpoint_id s) (request_config rq ty_len resolved flt) resolved start (tm_clock t)
      \<and> s' = s\<lparr>sv_next_breakpoint_id := sv_next_breakpoint_id s + 1,
           sv_threads := sv_threads s @ [\<lparr>pt_id = sv_next_breakpoint_id s, pt_pid = cq_pid rq,
             pt_watcher = w, pt_cancel = False, pt_phase = Between, pt_errors = 0\<rparr>]\<rparr>"
  using assms by (auto simp: start_breakpoint_def Let_def split: prod.splits sum.splits if_splits)

lemma create_inner_ok:
  assumes "create_breakpoint_inner env t rq (s, k) = (Inr view, (s', k'))"
  shows "\<exists>s1. prepare_breakpoint env t rq (s, k) = (Inr view, (s1, k')) \<and> insert_breakpoint view s1 = (Inr view, s')"
  using assms by (auto simp: create_breakpoint_inner_def insert_breakpoint_def split: prod.splits sum.splits if_splits)

lemma push_hit_simps [simp]:
  "sv_sent (push_hit h s) = sv_sent s @ [h]"
  "sv_queue (push_hit h s) = sv_queue s"
  "sv_hit_buffer_limit (push_hit h s) = sv_hit_buffer_limit s"
  by (simp_all add: push_hit_def Let_def)

lemma fold_offer:
  assumes "sv_receiver s" and "length (sv_queue s) \<le> SAMPLE_QUEUE_CAPACITY"
  shows "fold (offer_sample i pid) ds s =
    (let room = SAMPLE_QUEUE_CAPACITY - length (sv_queue s) in
     s\<lparr>sv_queue := sv_queue s @ map (\<lambda>d. \<lparr>qs_breakpoint_id = i, qs_pid = pid, qs_data = d\<rparr>) (take room ds),
       sv_dropped_samples := sv_dropped_samples s + of_nat (length ds - room)\<rparr>)"
  using assms
proof (induction ds arbitrary: s)
  case (Cons d ds)
  show ?case
  proof (cases "length (sv_queue s) < SAMPLE_QUEUE_CAPACITY")
    case True
    then obtain m where m: "SAMPLE_QUEUE_CAPACITY - length (sv_queue s) = Suc m"
      by (metis Suc_diff_Suc)
    let ?s = "s\<lparr>sv_queue := sv_queue s @ [\<lparr>qs_breakpoint_id = i, qs_pid = pid, qs_data = d\<rparr>]\<rparr>"
    have "offer_sample i pid d s = ?s" using True Cons.prems by (simp add: offer_sample_def)
    moreover have "SAMPLE_QUEUE_CAPACITY - length (sv_queue ?s) = m" using m by simp
    ultimately show ?thesis using Cons.IH [of ?s] Cons.prems True m by (simp add: Let_def)
  next
    case False
    let ?s = "s\<lparr>sv_dropped_samples := sv_dropped_samples s + 1\<rparr>"
    have "offer_sample i pid d s = ?s" using False by (simp add: offer_sample_def)
    moreover have "length (sv_queue s) = SAMPLE_QUEUE_CAPACITY" using False Cons.prems by simp
    ultimately show ?thesis using Cons.IH [of ?s] Cons.prems by (simp add: Let_def algebra_simps)
  qed
qed (simp add: Let_def)

subsection \<open>A run of the server\<close>

text \<open>
  The server on the demonstration kernel, with no file to be read: one breakpoint is created,
  polled, and its sample turned into a hit.
\<close>

definition demo_env :: "demo env" where
  "demo_env = \<lparr>en_sys = linux, en_arch = Aarch64, en_kernel = demo_kernel, en_tasks = demo_tasks,
     en_fs = \<lparr>pf_dir = \<lambda>w p. (Inl ''gone'', w), pf_text = \<lambda>w p. (Inl ''gone'', w),
       pf_bytes = \<lambda>w p. (Inl ''gone'', w), pf_link = \<lambda>w p. (Inl ''gone'', w)\<rparr>, en_world = (=)\<rparr>"

definition demo_times :: times where
  "demo_times = \<lparr>tm_first = 0, tm_second = 0, tm_clock = Some 5\<rparr>"

definition demo_request :: create_breakpoint_request where
  "demo_request = \<lparr>cq_pid = 7, cq_type_name = ''w4'', cq_addr = hex16 16, cq_backtrace = False,
     cq_buf_size = 0, cq_filter = None\<rparr>"

definition demo_sv :: server where
  "demo_sv = initial_server 2 True"

definition demo_bp :: breakpoint_view where
  "demo_bp = \<lparr>bv_id = 1, bv_pid = 7, bv_type_name = ''w4'', bv_addr = hex16 16,
     bv_resolved_addr = hex16 16, bv_resolved_map = None, bv_threads = [7, 8], bv_created_at_ms = 5,
     bv_status = ''running''\<rparr>"

definition demo_watcher :: watcher where
  "demo_watcher = \<lparr>wt_fd = 4, wt_breakpoints = [7, 8], wt_filter = None\<rparr>"

definition demo_thread :: "watch_phase \<Rightarrow> poll_thread" where
  "demo_thread ph = \<lparr>pt_id = 1, pt_pid = 7, pt_watcher = demo_watcher, pt_cancel = False, pt_phase = ph, pt_errors = 0\<rparr>"

definition demo_sv1 :: "watch_phase \<Rightarrow> server" where
  "demo_sv1 ph = demo_sv\<lparr>sv_next_breakpoint_id := 2, sv_breakpoints := [(1, demo_bp)], sv_threads := [demo_thread ph]\<rparr>"

definition demo_k1 :: demo where
  "demo_k1 = demo_start\<lparr>dk_fds := [4], dk_breakpoints := [8, 7]\<rparr>"

lemma demo_env_simps [simp]:
  "en_sys demo_env = linux" "en_arch demo_env = Aarch64" "en_kernel demo_env = demo_kernel"
  "en_tasks demo_env = demo_tasks" "pf_text (en_fs demo_env) w p = (Inl ''gone'', w)"
  by (simp_all add: demo_env_def)

lemma demo_unreadable:
  "\<not> mc_poisoned c \<Longrightarrow> mc_entries c = Map.empty \<Longrightarrow> regions_with (pf_text (en_fs demo_env)) now pid fr c w = (Inl (ReadFailed ''gone''), c, w)"
  by (rule regions_with_failed) (simp_all add: is_stale_def)

lemma demo_resolve:
  "resolve (pf_text (en_fs demo_env)) now pid a empty_cache w = (None, empty_cache, w)"
  by (simp add: resolve_def resolve_cached_def demo_unreadable empty_cache_def)

lemma demo_prepare:
  "prepare_breakpoint demo_env demo_times demo_request (demo_sv, demo_start) =
     (Inr demo_bp, (demo_sv\<lparr>sv_next_breakpoint_id := 2, sv_threads := [demo_thread Between]\<rparr>, demo_k1))"
proof -
  have ty: "parse_watchpoint_type linux ''w4'' = Some (2, 4)"
    by (simp add: parse_watchpoint_type_def strip_prefix_def parse_len_def linux_def)
  let ?res = "\<lparr>ra_expression = hex16 16, ra_address = hex16 16, ra_value = 16, ra_map = None\<rparr>"
  have ex: "resolve_expression (pf_text (en_fs demo_env)) 0 0 7 (hex16 16) empty_cache demo_start
      = (Inr ?res, empty_cache, demo_start)"
    by (simp add: resolve_expression_hex demo_resolve)
  have st: "start_watch linux demo_kernel demo_tasks (request_config demo_request (2, 4) ?res None) demo_start =
     (Inr (\<lparr>ws_threads = [7, 8]\<rparr>, demo_watcher), demo_k1)"
    by (simp add: start_watch_def start_driver_watch_def demo_open list_threads_def demo_tasks_def
        request_config_def demo_request_def List.map_filter_def driver_create_def driver_io_def Let_def
        demo_start_def demo_watcher_def demo_k1_def)
  show ?thesis
    using ty ex st
    by (simp add: prepare_breakpoint_def demo_request_def demo_times_def demo_sv_def initial_server_def
        parse_filter_option_def start_breakpoint_def Let_def make_view_def request_config_def demo_bp_def
        demo_thread_def now_ms_def)
qed

lemma demo_create:
  "create_breakpoint demo_env demo_times In_Time demo_request (demo_sv, demo_start) =
     (\<lparr>status = CREATED, headers = [], body = Json demo_bp\<rparr>, (demo_sv1 Between, demo_k1))"
proof -
  have "insert_breakpoint demo_bp (demo_sv\<lparr>sv_next_breakpoint_id := 2, sv_threads := [demo_thread Between]\<rparr>)
      = (Inr demo_bp, demo_sv1 Between)"
    by (simp add: insert_breakpoint_def demo_sv1_def demo_sv_def initial_server_def demo_bp_def)
  then show ?thesis by (simp add: create_breakpoint_def create_breakpoint_inner_def demo_prepare)
qed

definition demo_sample :: "i32 \<Rightarrow> queued_sample" where
  "demo_sample tid = \<lparr>qs_breakpoint_id = 1, qs_pid = 7, qs_data = sample_of_hit (demo_hit tid)\<rparr>"

definition demo_sv2 :: server where
  "demo_sv2 = (demo_sv1 (In_Round [8] 0 []))\<lparr>sv_queue := [demo_sample 7]\<rparr>"

lemma take_one_replicate: "0 < n \<Longrightarrow> take (Suc 0) ((replicate n x)[0 := y]) = [y]"
  by (cases n) simp_all

lemma demo_poll:
  "poll_step demo_env 0 0 (demo_sv1 Between, demo_k1) = (demo_sv1 (In_Round [7, 8] 0 []), demo_k1)"
  "poll_step demo_env 0 0 (demo_sv1 (In_Round [7, 8] 0 []), demo_k1)
     = (demo_sv1 (In_Round [8] 0 [sample_of_hit (demo_hit 7)]), demo_k1)"
  "poll_step demo_env 0 0 (demo_sv1 (In_Round [8] 0 [sample_of_hit (demo_hit 7)]), demo_k1) = (demo_sv2, demo_k1)"
  by (simp_all add: poll_step_def demo_sv1_def demo_thread_def demo_watcher_def driver_hits_def driver_io_def Let_def
    wanted_def demo_sv_def initial_server_def offer_sample_def SAMPLE_QUEUE_CAPACITY_def demo_sv2_def demo_sample_def
    take_one_replicate)

lemma demo_reachable: "reachable demo_env (demo_sv, no_inflight, demo_start)"
  unfolding demo_sv_def by (rule reachable_start)

lemma demo_reachable1: "reachable demo_env (demo_sv1 Between, no_inflight, demo_k1)"
  by (rule reachable_steps [OF demo_reachable create_steps [OF _ _ demo_create]])
    (simp_all add: demo_sv_def initial_server_def not_panic_def)

lemma demo_reachable2: "reachable demo_env (demo_sv2, no_inflight, demo_k1)"
  using reachable_step [OF reachable_step [OF reachable_step [OF demo_reachable1]],
    OF step_poll step_poll step_poll, OF demo_poll] .

definition demo_hits :: "server \<times> demo" where
  "demo_hits = hit_worker_turn demo_env demo_times (demo_sv2, demo_k1)"

lemma demo_reachable3: "reachable demo_env (fst demo_hits, no_inflight, snd demo_hits)"
  by (rule reachable_steps [OF demo_reachable2 worker_turn_steps [where t = demo_times]])
    (simp_all add: demo_hits_def no_inflight_def)

lemma demo_hits_sent: "length (sv_sent (fst demo_hits)) = 1 \<and> sv_hit_buffer_limit (fst demo_hits) = 2"
  unfolding demo_hits_def
  by (rule worker_turn_cases [of demo_sv2 demo_env demo_times demo_k1])
    (simp_all add: hit_worker_turn_def demo_sv2_def demo_sv1_def demo_sv_def initial_server_def)

definition demo_cancelled :: server where
  "demo_cancelled = snd (delete_breakpoint False 1 (demo_sv1 Between))"


subsection \<open>Properties\<close>

text \<open>
  C8: a breakpoint that is answered 201 is in the table: the answer is the view stored under a number
  that was free, every other entry is untouched, and a polling thread that owns at least one
  installed breakpoint and the parsed filter of the request reports under that number.
\<close>

theorem create_breakpoint_ok:
  assumes "reachable env (s, fl, k)" and "create_breakpoint env t v rq (s, k) = (r, (s', k'))" and "status r = CREATED"
  shows "\<exists>view w. body r = Json view \<and> bv_id view = sv_next_breakpoint_id s \<and> bv_status view = ''running''
    \<and> bv_pid view = cq_pid rq \<and> bv_addr view = cq_addr rq
    \<and> map_of (sv_breakpoints s) (bv_id view) = None
    \<and> map_of (sv_breakpoints s') = (map_of (sv_breakpoints s))(bv_id view \<mapsto> view)
    \<and> sv_threads s' = sv_threads s @ [\<lparr>pt_id = bv_id view, pt_pid = cq_pid rq, pt_watcher = w,
         pt_cancel = False, pt_phase = Between, pt_errors = 0\<rparr>]
    \<and> parse_filter_option (en_arch env) (cq_filter rq) = Inr (wt_filter w) \<and> wt_breakpoints w \<noteq> []"
proof -
  have inv: "breakpoints_inv s fl" using reachable_inv [OF assms(1)] by simp
  from assms(2,3) obtain view where c: "run v (create_breakpoint_inner env t rq) (s, k) = (Inr view, (s', k'))"
    and r: "body r = Json view"
    by (auto simp: create_breakpoint_def status_defs split: prod.splits sum.splits)
  then have "create_breakpoint_inner env t rq (s, k) = (Inr view, (s', k'))" by (simp add: run_Inr_iff)
  from create_inner_ok [OF this] obtain s1 where
    p: "prepare_breakpoint env t rq (s, k) = (Inr view, (s1, k'))" and i: "insert_breakpoint view s1 = (Inr view, s')"
    by blast
  from p obtain ty_len resolved flt c k1 where
    e: "resolve_expression (pf_text (en_fs env)) (tm_first t) (tm_second t) (cq_pid rq) (cq_addr rq) (sv_maps s) k
        = (Inr resolved, c, k1)"
    and f: "parse_filter_option (en_arch env) (cq_filter rq) = Inr flt"
    and b: "start_breakpoint env t rq ty_len resolved flt (s\<lparr>sv_maps := c\<rparr>) k1 = (Inr view, (s1, k'))"
    by (cases rule: prepare_breakpoint_cases) auto
  from e have "ra_expression resolved = cq_addr rq"
    by (auto simp: resolve_expression_def split: prod.splits sum.splits option.splits)
  moreover from start_breakpoint_ok [OF b] obtain st w where
    w: "start_watch (en_sys env) (en_kernel env) (en_tasks env) (request_config rq ty_len resolved flt) k1 = (Inr (st, w), k')"
    and view: "view = make_view (sv_next_breakpoint_id s) (request_config rq ty_len resolved flt) resolved st (tm_clock t)"
    and s1: "s1 = s\<lparr>sv_maps := c, sv_next_breakpoint_id := sv_next_breakpoint_id s + 1,
           sv_threads := sv_threads s @ [\<lparr>pt_id = sv_next_breakpoint_id s, pt_pid = cq_pid rq,
             pt_watcher = w, pt_cancel = False, pt_phase = Between, pt_errors = 0\<rparr>]\<rparr>" by auto
  moreover have "s' = s1\<lparr>sv_breakpoints := AList.update (bv_id view) view (sv_breakpoints s1)\<rparr>"
    using i by (auto simp: insert_breakpoint_def split: if_splits)
  moreover have "wt_filter w = flt \<and> wt_breakpoints w \<noteq> []"
    using w by (auto simp: start_watch_def start_driver_watch_def request_config_def Let_def
        split: prod.splits sum.splits if_splits)
  moreover have "map_of (sv_breakpoints s) (sv_next_breakpoint_id s) = None"
    using inv entries_ok_fresh [of "sv_next_breakpoint_id s" "live_entries s fl"]
    by (auto simp: breakpoints_inv_def live_entries_def map_of_eq_None_iff)
  ultimately show ?thesis using r f
    by (intro exI [of _ view] exI [of _ w]) (auto simp: make_view_def request_config_def update_conv')
qed

theorem create_breakpoint_ok_witness:
  "\<exists>w. sv_threads (demo_sv1 Between) = [\<lparr>pt_id = 1, pt_pid = 7, pt_watcher = w, pt_cancel = False,
      pt_phase = Between, pt_errors = 0\<rparr>] \<and> wt_breakpoints w \<noteq> []"
  using create_breakpoint_ok [OF demo_reachable demo_create]
  by (auto simp: demo_bp_def demo_request_def demo_sv_def initial_server_def)

text \<open>
  A creation that outlives the deadline of its request is answered 400 and yet does all its work:
  the state it leaves is that of a creation answered in time, running breakpoint included.
\<close>

lemma late_create_still_starts:
  "snd (create_breakpoint env t Too_Late rq sk) = snd (create_breakpoint env t In_Time rq sk)
    \<and> status (fst (create_breakpoint env t Too_Late rq sk)) = BAD_REQUEST"
  by (auto simp: create_breakpoint_def split: prod.splits sum.splits)

text \<open>
  C11: in every reachable state the list of breakpoints is sorted by number without repetition, holds
  exactly the views of the table, and names every polling thread that is neither cancelled nor
  between the steps of its own creation or deletion.
\<close>

theorem breakpoints_listed:
  assumes "reachable env (s, fl, k)"
  shows "\<exists>vs. list_breakpoints False s = json_response vs \<and> sorted_wrt (\<lambda>v w. unat (bv_id v) < unat (bv_id w)) vs
    \<and> set vs = snd ` set (sv_breakpoints s)
    \<and> list_all (\<lambda>t. pt_cancel t \<or> pt_id t \<in> bv_id ` set vs \<or> pt_id t \<in> bv_id ` set (fl_opening fl)
        \<or> pt_id t \<in> set (fl_closing fl)) (sv_threads s)"
proof -
  have inv: "breakpoints_inv s fl" using reachable_inv [OF assms] by simp
  let ?f = "\<lambda>v. unat (bv_id v)"
  let ?vs = "sort_key ?f (map snd (sv_breakpoints s))"
  have keys: "map bv_id (map snd (sv_breakpoints s)) = map fst (sv_breakpoints s)"
    using inv by (auto simp: breakpoints_inv_def live_entries_def entries_ok_def dest: bspec)
  have "distinct (map fst (sv_breakpoints s))"
    using inv by (simp add: breakpoints_inv_def live_entries_def entries_ok_def)
  then have "distinct (map bv_id (map snd (sv_breakpoints s)))" by (simp only: keys)
  then have "distinct (map unat (map bv_id (map snd (sv_breakpoints s))))"
    by (subst distinct_map) (simp add: inj_on_def word_unat_eq_iff)
  then have "distinct (map ?f (map snd (sv_breakpoints s)))" by (simp add: comp_def)
  moreover have "mset (map ?f ?vs) = mset (map ?f (map snd (sv_breakpoints s)))"
    by (simp only: mset_map mset_sort)
  ultimately have "distinct (map ?f ?vs)" using mset_eq_imp_distinct_iff by blast
  moreover have "sorted (map ?f ?vs)" by simp
  ultimately have "sorted_wrt (<) (map ?f ?vs)" by (simp add: strict_sorted_iff)
  then have "sorted_wrt (\<lambda>v w. ?f v < ?f w) ?vs" by (simp add: sorted_wrt_map)
  moreover have "fst ` set (live_entries s fl) = bv_id ` set ?vs \<union> bv_id ` set (fl_opening fl)"
    using arg_cong [OF keys, of set] by (simp add: live_entries_def image_Un image_image)
  then have "list_all (\<lambda>t. pt_cancel t \<or> pt_id t \<in> bv_id ` set ?vs \<or> pt_id t \<in> bv_id ` set (fl_opening fl)
      \<or> pt_id t \<in> set (fl_closing fl)) (sv_threads s)"
    using inv unfolding breakpoints_inv_def threads_ok_def list_all_iff by blast
  moreover have "list_breakpoints False s = json_response ?vs"
    using inv by (simp add: list_breakpoints_def try_lock_def breakpoints_inv_def)
  moreover have "set ?vs = snd ` set (sv_breakpoints s)" by simp
  ultimately show ?thesis by blast
qed

theorem breakpoints_listed_witness:
  "\<exists>vs. list_breakpoints False (demo_sv1 Between) = json_response vs \<and> set vs = {demo_bp}"
  using breakpoints_listed [OF demo_reachable1] by (auto simp: demo_sv1_def)

lemma delete_free:
  assumes "reachable env (s, fl, k)" and "delete_breakpoint False i s = (r, s')"
  shows "status r = (if map_of (sv_breakpoints s) i = None then NOT_FOUND else NO_CONTENT)
    \<and> map_of (sv_breakpoints s') = (map_of (sv_breakpoints s))(i := None)
    \<and> list_all (\<lambda>t. pt_id t = i \<longrightarrow> pt_cancel t \<or> i \<in> bv_id ` set (fl_opening fl) \<or> i \<in> set (fl_closing fl)) (sv_threads s')
    \<and> status (fst (delete_breakpoint False i s')) = NOT_FOUND"
proof -
  have inv: "breakpoints_inv s fl" using reachable_inv [OF assms(1)] by simp
  then have np: "\<not> sv_breakpoints_poisoned s" by (simp add: breakpoints_inv_def)
  show ?thesis
  proof (cases "map_of (sv_breakpoints s) i")
    case None
    then have "i \<notin> fst ` set (sv_breakpoints s)" by (simp add: map_of_eq_None_iff)
    then have "i \<in> fst ` set (live_entries s fl) \<longrightarrow> i \<in> bv_id ` set (fl_opening fl)"
      by (simp add: live_entries_def image_Un image_image)
    then have "list_all (\<lambda>t. pt_id t = i \<longrightarrow> pt_cancel t \<or> i \<in> bv_id ` set (fl_opening fl) \<or> i \<in> set (fl_closing fl)) (sv_threads s)"
      using inv unfolding breakpoints_inv_def threads_ok_def list_all_iff by blast
    moreover have "r = error_response NOT_FOUND (''breakpoint '' @ show_nat (unat i) @ '' not found'') \<and> s' = s"
      using None np assms(2) by (simp add: delete_breakpoint_def try_lock_def)
    ultimately show ?thesis using None np by (auto simp: delete_breakpoint_def try_lock_def)
  next
    case (Some v)
    let ?s = "s\<lparr>sv_breakpoints := AList.delete i (sv_breakpoints s), sv_threads := stop i (sv_threads s)\<rparr>"
    have d: "s' = ?s" "status r = NO_CONTENT"
      using Some np assms(2) by (auto simp: delete_breakpoint_def try_lock_def)
    have m: "map_of (AList.delete i (sv_breakpoints s)) = (map_of (sv_breakpoints s))(i := None)"
      by (rule delete_conv')
    have "list_all (\<lambda>t. pt_id t = i \<longrightarrow> pt_cancel t \<or> i \<in> bv_id ` set (fl_opening fl) \<or> i \<in> set (fl_closing fl))
        (stop i (sv_threads s))"
      by (simp add: stop_def list_all_length)
    moreover have "status (fst (delete_breakpoint False i ?s)) = NOT_FOUND"
      using np by (simp add: delete_breakpoint_def try_lock_def m)
    ultimately show ?thesis using Some d by (simp add: m)
  qed
qed

text \<open>
  C9: a deletion that finds the table busy answers 503 and changes nothing. Any other answers 204 if the
  breakpoint was in the table and 404 if not, never 500; afterwards that entry and no other is gone, its
  polling thread is cancelled unless its own creation or another deletion of it is in flight, and a
  second deletion answers 404.
\<close>

theorem delete_effect:
  assumes "reachable env (s, fl, k)" and "delete_breakpoint busy i s = (r, s')"
  shows "if busy then status r = SERVICE_UNAVAILABLE \<and> s' = s
    else status r = (if map_of (sv_breakpoints s) i = None then NOT_FOUND else NO_CONTENT)
      \<and> map_of (sv_breakpoints s') = (map_of (sv_breakpoints s))(i := None)
      \<and> list_all (\<lambda>t. pt_id t = i \<longrightarrow> pt_cancel t \<or> i \<in> bv_id ` set (fl_opening fl) \<or> i \<in> set (fl_closing fl)) (sv_threads s')
      \<and> status (fst (delete_breakpoint False i s')) = NOT_FOUND"
proof (cases busy)
  case True
  with assms(2) show ?thesis by (auto simp: delete_breakpoint_def try_lock_def)
next
  case False
  with delete_free [OF assms(1)] assms(2) show ?thesis by simp
qed

theorem delete_effect_witness:
  "status (fst (delete_breakpoint False 1 (demo_sv1 Between))) = NO_CONTENT
    \<and> status (fst (delete_breakpoint False 1 (snd (delete_breakpoint False 1 (demo_sv1 Between))))) = NOT_FOUND"
proof -
  obtain r s where d: "delete_breakpoint False 1 (demo_sv1 Between) = (r, s)" by fastforce
  have "map_of (sv_breakpoints (demo_sv1 Between)) 1 = Some demo_bp" by (simp add: demo_sv1_def)
  with delete_effect [OF demo_reachable1 d] d show ?thesis by simp
qed

text \<open>
  A turn of the hit worker takes the oldest sample off the queue, numbers it with the next
  sequence number, publishes it with the sample's own breakpoint, process, thread and register
  values, and leaves in the buffer the last hits up to its limit.
\<close>

lemma worker_makes_hit:
  assumes "reachable env (s, fl, k)" and "fl_worker fl = Waiting" and "sv_queue s = q # qs"
    and "hit_worker_turn env t (s, k) = (s', k')"
  shows "\<exists>h. sv_sent s' = sv_sent s @ [h] \<and> sv_queue s' = qs
    \<and> ht_seq h = of_nat (Suc (length (sv_sent s))) \<and> ht_breakpoint_id h = qs_breakpoint_id q
    \<and> ht_pid h = sd_pid (qs_data q) \<and> ht_tid h = sd_tid (qs_data q)
    \<and> words_back (map rv_value (ht_regs h)) = sd_regs (qs_data q)
    \<and> sv_hit_buffer s' = last_n (sv_hit_buffer_limit s) (sv_sent s @ [h])"
proof -
  have inv: "hits_inv s" using reachable_inv [OF assms(1)] by simp
  have inv': "hits_inv s'"
    using reachable_inv [OF reachable_steps [OF assms(1) worker_turn_steps [OF assms(2,4)]]] by simp
  show ?thesis
  proof (cases rule: worker_turn_cases [where s = s and env = env and t = t and k = k])
    case 1
    with assms(3) show ?thesis by simp
  next
    case (2 q' qs' c regs bt k2)
    let ?h = "fst (make_hit_with_maps (en_arch env) (tm_clock t) (qs_breakpoint_id q) (qs_data q) regs bt (sv_hit_factory s))"
    have q: "q' = q" "qs' = qs" using 2(1) assms(3) by simp_all
    have s': "s' = push_hit ?h (s\<lparr>sv_queue := qs, sv_maps := c,
        sv_hit_factory := \<lparr>hf_next_seq = hf_next_seq (sv_hit_factory s) + 1\<rparr>\<rparr>)"
      using 2(2) assms(4) q by (simp add: hit_worker_turn_def)
    moreover have "ht_seq ?h = of_nat (Suc (length (sv_sent s)))"
      using inv by (simp add: hits_inv_def)
    moreover have "sv_hit_buffer s' = last_n (sv_hit_buffer_limit s') (sv_sent s')"
      using inv' by (simp add: hits_inv_def)
    ultimately show ?thesis
      by (intro exI [of _ ?h]) (simp add: hit_values)
  qed
qed

text \<open>
  C7: in every reachable state \<open>GET /hits\<close> answers with the newest hits, oldest first, as many as the
  query (100 without one) and the buffer allow, and their sequence numbers are consecutive and end
  with the number of hits made so far: no gap, no repetition.
\<close>

theorem hits_served:
  assumes "reachable env (s, fl, k)"
  shows "\<exists>hs. get_hits False lim s = json_response hs
    \<and> hs = last_n (min (case lim of Some n \<Rightarrow> n | None \<Rightarrow> 100) (sv_hit_buffer_limit s)) (sv_sent s)
    \<and> map ht_seq hs = map of_nat [Suc (length (sv_sent s)) - length hs..<Suc (length (sv_sent s))]"
proof -
  let ?m = "min (case lim of Some n \<Rightarrow> n | None \<Rightarrow> 100) (sv_hit_buffer_limit s)"
  have inv: "hits_inv s" using reachable_inv [OF assms] by simp
  have "get_hits False lim s = json_response (last_n ?m (sv_sent s))"
    using inv by (simp add: get_hits_def try_lock_def hits_inv_def rev_take_rev last_n_min)
  moreover have "map ht_seq (last_n ?m (sv_sent s)) = last_n ?m (map of_nat [1..<Suc (length (sv_sent s))])"
    using inv by (simp add: last_n_map hits_inv_def del: upt_Suc)
  then have "map ht_seq (last_n ?m (sv_sent s))
      = map of_nat [Suc (length (sv_sent s)) - length (last_n ?m (sv_sent s))..<Suc (length (sv_sent s))]"
    by (simp only: last_n_upt length_last_n flip: last_n_map)
  ultimately show ?thesis by blast
qed

theorem hits_served_witness:
  "\<exists>h. get_hits False None (fst demo_hits) = json_response [h] \<and> ht_seq h = 1"
proof -
  obtain s k where sk: "demo_hits = (s, k)" by fastforce
  have n: "length (sv_sent s) = 1" "sv_hit_buffer_limit s = 2" using demo_hits_sent unfolding sk by simp_all
  from hits_served [OF demo_reachable3 [unfolded sk fst_conv snd_conv], of None] obtain hs where
    hs: "get_hits False None s = json_response hs" "hs = last_n (min 100 (sv_hit_buffer_limit s)) (sv_sent s)"
      "map ht_seq hs = map of_nat [Suc (length (sv_sent s)) - length hs..<Suc (length (sv_sent s))]"
    by (simp only: option.case) blast
  then have l: "length hs = 1" using n by simp
  then obtain h where "hs = [h]" by (auto simp: length_Suc_conv)
  with hs(1,3) n have "get_hits False None s = json_response [h]" "ht_seq h = 1" by simp_all
  then show ?thesis unfolding sk fst_conv by blast
qed

text \<open>
  What the broadcast channel hands to a receiver, by its documentation: the values sent since it
  subscribed, in order, where a receiver that has lagged is told how many it has missed and goes on
  behind them.
\<close>

fun delivers :: "'a list \<Rightarrow> (nat + 'a) list \<Rightarrow> bool" where
  "delivers sent [] \<longleftrightarrow> True"
| "delivers sent (Inl missed # rs) \<longleftrightarrow> missed \<le> length sent \<and> delivers (drop missed sent) rs"
| "delivers (x # sent) (Inr y # rs) \<longleftrightarrow> x = y \<and> delivers sent rs"
| "delivers [] (Inr y # rs) \<longleftrightarrow> False"

definition received_hits :: "(nat + 'a) list \<Rightarrow> 'a list" where
  "received_hits rs = List.map_filter result_ok rs"

definition missed :: "(nat + 'a) list \<Rightarrow> nat" where
  "missed rs = sum_list (map (\<lambda>r. case r of Inl n \<Rightarrow> n | Inr _ \<Rightarrow> 0) rs)"

lemma received_hits_simps [simp]:
  "received_hits [] = []"
  "received_hits (Inl n # rs) = received_hits rs"
  "received_hits (Inr x # rs) = x # received_hits rs"
  by (simp_all add: received_hits_def List.map_filter_def)

lemma delivers_subseq: "delivers sent rs \<Longrightarrow> subseq (received_hits rs) sent"
proof (induction sent rs rule: delivers.induct)
  case (2 sent n rs)
  then have "subseq (received_hits rs) (drop n sent)" by simp
  moreover have "subseq (drop n sent) sent" by (metis append_take_drop_id list_emb_append2 subseq_order.order_refl)
  ultimately show ?case using subseq_order.trans by fastforce
qed auto

lemma delivers_count: "delivers sent rs \<Longrightarrow> length (received_hits rs) + missed rs \<le> length sent"
  by (induction sent rs rule: delivers.induct) (auto simp: missed_def)

lemma delivers_all:
  "delivers sent rs \<Longrightarrow> missed rs = 0 \<Longrightarrow> received_hits rs = take (length (received_hits rs)) sent"
  by (induction sent rs rule: delivers.induct) (auto simp: missed_def)

lemma sorted_wrt_subseq: "subseq xs ys \<Longrightarrow> sorted_wrt R ys \<Longrightarrow> sorted_wrt R xs"
proof (induction rule: list_emb.induct)
  case (list_emb_Cons2 x y xs ys)
  then show ?case using list_emb_set [OF list_emb_Cons2(2)] by fastforce
qed auto

lemma sent_in_order:
  assumes "hits_inv s" and "length (sv_sent s) < 2 ^ 64"
  shows "sorted_wrt (\<lambda>g h. ht_seq g < ht_seq h) (sv_sent s)"
proof -
  have "sorted_wrt (<) (map (of_nat :: nat \<Rightarrow> u64) [1..<Suc (length (sv_sent s))])"
    unfolding sorted_wrt_map
    by (rule sorted_wrt_mono_rel [OF _ sorted_wrt_upt]) (use assms(2) in \<open>auto simp: word_less_nat_alt unat_of_nat_u64\<close>)
  then show ?thesis using assms(1) by (simp add: hits_inv_def flip: sorted_wrt_map)
qed

text \<open>
  C33: the event stream tells a client about hits in their order: after the \<open>ready\<close> event comes one
  event per hit received, with increasing sequence numbers. Together with those the channel reports as
  missed they are no more than the hits made since the client subscribed, and if none is
  reported as missed, they are the first of them without a gap.
\<close>

theorem stream_in_order:
  assumes "reachable env (s, fl, k)" and "length (sv_sent s) < 2 ^ 64" and "delivers (drop m (sv_sent s)) received"
  shows "let hs = received_hits received in
      stream_hits json received = Inr (''ready'', ''{}'') # map (\<lambda>h. and_then (json h) (\<lambda>d. Inr (''hit'', d))) hs
    \<and> subseq hs (drop m (sv_sent s)) \<and> sorted_wrt (\<lambda>g h. ht_seq g < ht_seq h) hs
    \<and> length hs + missed received \<le> length (sv_sent s) - m
    \<and> (missed received = 0 \<longrightarrow> hs = take (length hs) (drop m (sv_sent s)))"
proof -
  have "sorted_wrt (\<lambda>g h. ht_seq g < ht_seq h) (drop m (sv_sent s))"
    using sent_in_order assms(2) reachable_inv [OF assms(1)] by simp
  then have "sorted_wrt (\<lambda>g h. ht_seq g < ht_seq h) (received_hits received)"
    by (rule sorted_wrt_subseq [OF delivers_subseq [OF assms(3)]])
  moreover have "stream_hits json received
      = Inr (''ready'', ''{}'') # map (\<lambda>h. and_then (json h) (\<lambda>d. Inr (''hit'', d))) (received_hits received)"
    by (induction received) (auto simp: stream_hits_def received_hits_def List.map_filter_def res_simps split: sum.splits)
  ultimately show ?thesis
    using delivers_subseq [OF assms(3)] delivers_count [OF assms(3)] delivers_all [OF assms(3)] by (simp add: Let_def)
qed

theorem stream_in_order_witness:
  "stream_hits (\<lambda>h. Inr ''hit'') [Inr (hd (sv_sent (fst demo_hits)))] = [Inr (''ready'', ''{}''), Inr (''hit'', ''hit'')]"
proof -
  obtain s k where sk: "demo_hits = (s, k)" by fastforce
  have "length (sv_sent s) = 1" using demo_hits_sent unfolding sk by simp
  then obtain h where h: "sv_sent s = [h]" by (metis One_nat_def length_0_conv length_Suc_conv)
  from stream_in_order [OF demo_reachable3 [unfolded sk fst_conv snd_conv], of 0 "[Inr h]" "\<lambda>h. Inr ''hit''"] h
  show ?thesis unfolding sk by (simp add: Let_def)
qed

text \<open>
  Every answer carries the three CORS headers; a preflight is answered 204 without reaching a
  handler, and otherwise the handler's status and body are kept.
\<close>

lemma cors_everywhere:
  "(\<forall>n v. (n, v) \<in> set cors_headers \<longrightarrow> map_of (headers (fst (add_cors_headers m h k))) n = Some v)
    \<and> snd (add_cors_headers ''OPTIONS'' h k) = k
    \<and> status (fst (add_cors_headers ''OPTIONS'' h k)) = NO_CONTENT
    \<and> (m \<noteq> ''OPTIONS'' \<longrightarrow> status (fst (add_cors_headers m h k)) = status (fst (h k))
        \<and> body (fst (add_cors_headers m h k)) = body (fst (h k)))"
  by (auto simp: add_cors_headers_def cors_headers_def update_conv' split: prod.split)

end
