(* ===== verification/Server_Refinement.thy ===== *)
theory Server_Refinement
  imports Server_Properties
begin

section \<open>What the server promises\<close>

text \<open>
  An abstract service, without locks, caches, threads or kernel: numbers that are given out once,
  a table of active breakpoints, and a first-in first-out line of reports, which a clerk takes one by
  one and records. The server of \<open>Http_Server\<close> refines it, in every interleaving of its requests, polling
  threads and hit worker.
\<close>

subsection \<open>The abstract service\<close>

text \<open>A report is what a sample says: breakpoint, process, thread, registers, vectors, backtrace.\<close>

record report =
  rp_breakpoint :: u64
  rp_pid :: u32
  rp_tid :: u32
  rp_regs :: "u64 list"
  rp_vectors :: "u64 list"
  rp_backtrace :: "u64 list option"

record service =
  sp_given :: nat
  sp_opening :: "u64 set"
  sp_active :: "u64 \<Rightarrow> breakpoint_view option"
  sp_waiting :: "report list"
  sp_in_hand :: "report option"
  sp_recorded :: "report list"

definition service_start :: service where
  "service_start = \<lparr>sp_given = 0, sp_opening = {}, sp_active = Map.empty,
     sp_waiting = [], sp_in_hand = None, sp_recorded = []\<rparr>"

inductive service_step :: "service \<Rightarrow> service \<Rightarrow> bool" where
  service_waste: "Suc (sp_given a) < 2 ^ 64 \<Longrightarrow> service_step a (a\<lparr>sp_given := Suc (sp_given a)\<rparr>)"
| service_open: "Suc (sp_given a) < 2 ^ 64 \<Longrightarrow>
     service_step a (a\<lparr>sp_given := Suc (sp_given a),
       sp_opening := insert (of_nat (Suc (sp_given a))) (sp_opening a)\<rparr>)"
| service_list: "bv_id v \<in> sp_opening a \<Longrightarrow> sp_active a (bv_id v) = None \<Longrightarrow>
     service_step a (a\<lparr>sp_opening := sp_opening a - {bv_id v}, sp_active := (sp_active a)(bv_id v \<mapsto> v)\<rparr>)"
| service_delete: "sp_active a i \<noteq> None \<Longrightarrow> service_step a (a\<lparr>sp_active := (sp_active a)(i := None)\<rparr>)"
| service_accept: "length (sp_waiting a @ ns) \<le> SAMPLE_QUEUE_CAPACITY \<Longrightarrow>
     list_all (\<lambda>n. rp_breakpoint n = i) ns \<Longrightarrow> 0 < unat i \<Longrightarrow> unat i \<le> sp_given a \<Longrightarrow>
     service_step a (a\<lparr>sp_waiting := sp_waiting a @ ns\<rparr>)"
| service_take: "sp_waiting a = n # ns \<Longrightarrow> sp_in_hand a = None \<Longrightarrow>
     service_step a (a\<lparr>sp_waiting := ns, sp_in_hand := Some n\<rparr>)"
| service_record: "sp_in_hand a = Some n \<Longrightarrow>
     service_step a (a\<lparr>sp_in_hand := None, sp_recorded := sp_recorded a @ [n]\<rparr>)"

inductive_cases service_stepE: "service_step a b"

text \<open>All reports in their order: recorded, in hand, waiting.\<close>

definition all_reports :: "service \<Rightarrow> report list" where
  "all_reports a = sp_recorded a @ (case sp_in_hand a of None \<Rightarrow> [] | Some n \<Rightarrow> [n]) @ sp_waiting a"

subsection \<open>The view of the server as the service\<close>

definition report_of_sample :: "queued_sample \<Rightarrow> report" where
  "report_of_sample q =
     \<lparr>rp_breakpoint = qs_breakpoint_id q, rp_pid = sd_pid (qs_data q), rp_tid = sd_tid (qs_data q),
      rp_regs = sd_regs (qs_data q), rp_vectors = concat (map (\<lambda>(lo, hi). [lo, hi]) (sd_simd (qs_data q))),
      rp_backtrace = sd_backtrace (qs_data q)\<rparr>"

definition report_of_hit :: "hit \<Rightarrow> report" where
  "report_of_hit h =
     \<lparr>rp_breakpoint = ht_breakpoint_id h, rp_pid = ht_pid h, rp_tid = ht_tid h,
      rp_regs = words_back (map rv_value (ht_regs h)), rp_vectors = words_back (map rv_value (ht_simd h)),
      rp_backtrace = map_option words_back (ht_backtrace h)\<rparr>"

fun in_hand :: "worker_phase \<Rightarrow> queued_sample option" where
  "in_hand Waiting = None"
| "in_hand (Took q) = Some q"
| "in_hand (Resolved_Regs q rs) = Some q"
| "in_hand (Resolved q rs bt) = Some q"

definition service_of :: "server \<Rightarrow> inflight \<Rightarrow> service" where
  "service_of s fl =
     \<lparr>sp_given = unat (sv_next_breakpoint_id s) - 1, sp_opening = bv_id ` set (fl_opening fl),
      sp_active = map_of (sv_breakpoints s),
      sp_waiting = map report_of_sample (sv_queue s),
      sp_in_hand = map_option report_of_sample (in_hand (fl_worker fl)),
      sp_recorded = map report_of_hit (sv_sent s)\<rparr>"

definition held_in :: "worker_phase \<Rightarrow> queued_sample list" where
  "held_in ph = (case in_hand ph of None \<Rightarrow> [] | Some q \<Rightarrow> [q])"

abbreviation held :: "inflight \<Rightarrow> queued_sample list" where
  "held fl \<equiv> held_in (fl_worker fl)"

text \<open>The steps the worker still needs for the sample in its hand.\<close>

fun steps_left :: "worker_phase \<Rightarrow> nat" where
  "steps_left Waiting = 0"
| "steps_left (Took q) = 3"
| "steps_left (Resolved_Regs q rs) = 2"
| "steps_left (Resolved q rs bt) = 1"

lemma all_reports_of:
  "all_reports (service_of s fl) = map report_of_hit (sv_sent s) @ map report_of_sample (held fl @ sv_queue s)"
  by (simp add: all_reports_def service_of_def held_in_def split: option.split)

lemma report_of_made_hit:
  "report_of_hit (fst (make_hit_with_maps a clock (qs_breakpoint_id q) (qs_data q) regs bt f)) = report_of_sample q"
proof -
  have "map_option words_back (ht_backtrace (fst (make_hit_with_maps a clock (qs_breakpoint_id q) (qs_data q) regs bt f)))
      = sd_backtrace (qs_data q)"
    by (cases "sd_backtrace (qs_data q)") (simp_all add: make_hit_with_maps_def)
  then show ?thesis by (simp add: report_of_hit_def report_of_sample_def hit_values)
qed

subsection \<open>Every step of the server is a step of the service\<close>

lemma worker_view:
  assumes "worker_step env t (fl_worker fl, s, k) = (ph, s', k')"
  shows "service_step\<^sup>=\<^sup>= (service_of s fl) (service_of s' (fl\<lparr>fl_worker := ph\<rparr>))"
  using assms
proof (cases rule: worker_step_cases)
  case (take q qs)
  then show ?thesis
    using service_take [of "service_of s fl" "report_of_sample q" "map report_of_sample qs"] by (simp add: service_of_def)
next
  case (hit q rs bt)
  then have "service_of s' (fl\<lparr>fl_worker := ph\<rparr>)
      = (service_of s fl)\<lparr>sp_in_hand := None, sp_recorded := sp_recorded (service_of s fl) @ [report_of_sample q]\<rparr>"
    by (simp add: service_of_def report_of_made_hit) (simp add: push_hit_def Let_def)
  moreover have "sp_in_hand (service_of s fl) = Some (report_of_sample q)" using hit by (simp add: service_of_def)
  ultimately show ?thesis using service_record by (metis sup2CI)
qed (simp_all add: service_of_def)

lemma map_eq_snocE:
  assumes "map f xs = ys @ [y]"
  obtains us u where "xs = us @ [u]" and "f u = y"
  using assms by (cases xs rule: rev_cases) auto

lemma worker_step_progress:
  assumes "worker_step env t (ph, s, k) = (ph', s', k')"
  shows "steps_left ph' + 4 * length (sv_queue s') = steps_left ph + 4 * length (sv_queue s) - 1"
    and "map report_of_hit (sv_sent s') @ map report_of_sample (held_in ph' @ sv_queue s')
      = map report_of_hit (sv_sent s) @ map report_of_sample (held_in ph @ sv_queue s)"
    and "sv_hit_buffer_limit s' = sv_hit_buffer_limit s"
  using assms
  by (cases rule: worker_step_cases; simp add: held_in_def push_hit_def Let_def report_of_made_hit)+

lemma worker_run:
  assumes "fold (worker_step env) ts (ph, s, k) = (ph', s', k')"
  shows "steps_left ph' + 4 * length (sv_queue s') = steps_left ph + 4 * length (sv_queue s) - length ts
    \<and> map report_of_hit (sv_sent s') @ map report_of_sample (held_in ph' @ sv_queue s')
      = map report_of_hit (sv_sent s) @ map report_of_sample (held_in ph @ sv_queue s)
    \<and> sv_hit_buffer_limit s' = sv_hit_buffer_limit s"
  using assms
proof (induction ts arbitrary: ph s k)
  case (Cons t ts)
  obtain ph1 s1 k1 where w: "worker_step env t (ph, s, k) = (ph1, s1, k1)" by (metis prod_cases3)
  with Cons.prems have "fold (worker_step env) ts (ph1, s1, k1) = (ph', s', k')" by simp
  from Cons.IH [OF this] worker_step_progress [OF w] show ?case by simp
qed simp

lemma fold_offer_queue:
  "length (sv_queue s) \<le> SAMPLE_QUEUE_CAPACITY \<Longrightarrow>
     \<exists>n. sv_queue (fold (offer_sample i pid) ds s)
            = sv_queue s @ map (\<lambda>d. \<lparr>qs_breakpoint_id = i, qs_pid = pid, qs_data = d\<rparr>) (take n ds)
         \<and> length (sv_queue (fold (offer_sample i pid) ds s)) \<le> SAMPLE_QUEUE_CAPACITY"
proof (cases "sv_receiver s")
  case True
  assume "length (sv_queue s) \<le> SAMPLE_QUEUE_CAPACITY"
  with fold_offer [OF True this, of i pid ds] show ?thesis
    by (intro exI [of _ "SAMPLE_QUEUE_CAPACITY - length (sv_queue s)"]) (auto simp: Let_def)
next
  case False
  then have "sv_queue (fold (offer_sample i pid) ds s) = sv_queue s"
    by (induction ds arbitrary: s) (simp_all add: offer_sample_def)
  moreover assume "length (sv_queue s) \<le> SAMPLE_QUEUE_CAPACITY"
  ultimately show ?thesis by (intro exI [of _ 0]) simp
qed

lemma fold_offer_sent [simp]: "sv_sent (fold (offer_sample i pid) ds s) = sv_sent s"
  by (induction ds arbitrary: s) (simp_all add: offer_sample_def)

lemma offered_view:
  assumes "hits_inv s" and "0 < unat i" and "unat i < unat (sv_next_breakpoint_id s)"
  shows "service_step (service_of s fl) (service_of (fold (offer_sample i pid) ds s) fl)"
proof -
  let ?s = "fold (offer_sample i pid) ds s" and ?mk = "\<lambda>d. \<lparr>qs_breakpoint_id = i, qs_pid = pid, qs_data = d\<rparr>"
  obtain n where n: "sv_queue ?s = sv_queue s @ map ?mk (take n ds)" "length (sv_queue ?s) \<le> SAMPLE_QUEUE_CAPACITY"
    using fold_offer_queue [of s i pid ds] assms(1) by (auto simp: hits_inv_def)
  let ?ns = "map (report_of_sample \<circ> ?mk) (take n ds)" and ?a = "service_of s fl"
  have "table_of ?s = table_of s" by simp
  then have "service_of ?s fl = ?a\<lparr>sp_waiting := sp_waiting ?a @ ?ns\<rparr>"
    using n by (simp add: service_of_def table_of_def)
  moreover have "length (sp_waiting ?a @ ?ns) \<le> SAMPLE_QUEUE_CAPACITY" using n by (simp add: service_of_def)
  moreover have "list_all (\<lambda>n. rp_breakpoint n = i) ?ns" by (simp add: list_all_length report_of_sample_def)
  moreover have "unat i \<le> sp_given ?a" using assms(2,3) by (simp add: service_of_def)
  ultimately show ?thesis using service_accept [of ?a ?ns i] assms(2) by simp
qed

lemma service_of_memory: "service_of s (fl\<lparr>fl_memory := fds\<rparr>) = service_of s fl"
  by (simp add: service_of_def)

lemma poll_view:
  assumes "server_inv s fl"
  shows "service_step\<^sup>=\<^sup>= (service_of s fl) (service_of (fst (poll_step env ptr j (s, k))) fl)"
proof (cases "j < length (sv_threads s)")
  case True
  let ?t = "sv_threads s ! j"
  obtain out st k1 where l: "watch_step (en_kernel env) ptr (pt_watcher ?t) (pt_cancel ?t) (pt_phase ?t) (pt_errors ?t) k = (out, st, k1)"
    by (metis prod_cases3)
  let ?s = "fold (offer_sample (pt_id ?t) (pt_pid ?t)) out s"
  have threads: "service_of (s\<lparr>sv_threads := us\<rparr>) fl = service_of s fl" for us s by (simp add: service_of_def)
  have "service_of (fst (poll_step env ptr j (s, k))) fl = service_of ?s fl"
    using True l by (simp add: poll_step_def Let_def threads split: option.split prod.split)
  moreover have "?t \<in> set (sv_threads s)" using True by simp
  then have "0 < unat (pt_id ?t)" "unat (pt_id ?t) < unat (sv_next_breakpoint_id s)"
    using assms unfolding server_inv_def breakpoints_inv_def threads_ok_def by blast+
  then have "service_step (service_of s fl) (service_of ?s fl)"
    using offered_view assms by (simp add: server_inv_def)
  ultimately show ?thesis by simp
qed (simp add: poll_step_def)

lemma start_breakpoint_view:
  assumes "breakpoints_inv s fl" and "sv_next_breakpoint_id s \<noteq> -1"
    and "start_breakpoint env t rq ty_len resolved flt s k = (r, (s', k'))"
  shows "service_step (service_of s fl)
    (service_of s' (case r of Inl e \<Rightarrow> fl | Inr v \<Rightarrow> fl\<lparr>fl_opening := v # fl_opening fl\<rparr>))"
proof -
  let ?i = "sv_next_breakpoint_id s" and ?config = "request_config rq ty_len resolved flt" and ?a = "service_of s fl"
  have pos: "0 < unat ?i" using assms(1) by (simp add: breakpoints_inv_def)
  have g: "Suc (sp_given ?a) = unat ?i" using pos by (simp add: service_of_def)
  then have given: "Suc (sp_given ?a) < 2 ^ 64" "?i = of_nat (Suc (sp_given ?a))"
    using unat_u64_lt [of ?i] by simp_all
  have nx: "unat (?i + 1) - 1 = Suc (sp_given ?a)" using unat_succ [OF assms(2)] g by simp
  obtain o1 k1 where w: "start_watch (en_sys env) (en_kernel env) (en_tasks env) ?config k = (o1, k1)" by fastforce
  show ?thesis
  proof (cases o1)
    case (Inl e)
    then have "r = Inl (Watch_Error e)" "service_of s' fl = ?a\<lparr>sp_given := Suc (sp_given ?a)\<rparr>"
      using w nx assms(3) by (auto simp: start_breakpoint_def Let_def service_of_def)
    then show ?thesis using service_waste [OF given(1)] by simp
  next
    case (Inr p)
    obtain st wt where p: "p = (st, wt)" by fastforce
    let ?v = "make_view ?i ?config resolved st (tm_clock t)"
    have "bv_id ?v = ?i" by (simp add: make_view_def)
    then have "r = Inr ?v" "service_of s' (fl\<lparr>fl_opening := ?v # fl_opening fl\<rparr>)
        = ?a\<lparr>sp_given := Suc (sp_given ?a), sp_opening := insert ?i (sp_opening ?a)\<rparr>"
      using w Inr p nx assms(3) by (auto simp: start_breakpoint_def Let_def service_of_def)
    then show ?thesis using service_open [OF given(1)] given(2) by simp
  qed
qed

lemma service_of_maps [simp]: "service_of (s\<lparr>sv_maps := c\<rparr>) fl = service_of s fl"
  by (simp add: service_of_def)

lemma prepare_view:
  assumes "breakpoints_inv s fl" and "sv_next_breakpoint_id s \<noteq> -1"
    and "prepare_breakpoint env t rq (s, k) = (r, (s', k'))"
  shows "service_step\<^sup>=\<^sup>= (service_of s fl)
    (service_of s' (case r of Inl e \<Rightarrow> fl | Inr v \<Rightarrow> fl\<lparr>fl_opening := v # fl_opening fl\<rparr>))"
  using assms(3)
proof (cases rule: prepare_breakpoint_cases)
  case (2 ty_len resolved flt c k1)
  have "breakpoints_inv (s\<lparr>sv_maps := c\<rparr>) fl" using assms(1) by (simp add: breakpoints_inv_def)
  from start_breakpoint_view [OF this _ 2(4)] assms(2) show ?thesis by simp
qed simp

lemma insert_view:
  assumes "breakpoints_inv s fl" and "v \<in> set (fl_opening fl)"
  shows "service_step (service_of s fl)
    (service_of (snd (insert_breakpoint v s)) (fl\<lparr>fl_opening := remove1 v (fl_opening fl)\<rparr>))"
proof -
  let ?a = "service_of s fl"
  have e: "entries_ok (sv_next_breakpoint_id s) (sv_breakpoints s @ map (\<lambda>v. (bv_id v, v)) (fl_opening fl))"
    using assms(1) by (simp add: breakpoints_inv_def live_entries_def)
  then have d: "distinct (map bv_id (fl_opening fl))" and new: "bv_id v \<notin> fst ` set (sv_breakpoints s)"
    using assms(2) by (auto simp: entries_ok_def comp_def)
  from d have "distinct (fl_opening fl)" and "inj_on bv_id (set (fl_opening fl))"
    by (simp_all add: distinct_map)
  then have "bv_id ` set (remove1 v (fl_opening fl)) = bv_id ` set (fl_opening fl) - {bv_id v}"
    using assms(2) by (simp add: set_remove1_eq inj_on_image_set_diff [of bv_id "set (fl_opening fl)"])
  moreover have "map_of (sv_breakpoints s) (bv_id v) = None" using new by (simp add: map_of_eq_None_iff)
  moreover have "map_of (sv_breakpoints s @ [(bv_id v, v)]) = (map_of (sv_breakpoints s))(bv_id v \<mapsto> v)"
    using calculation(2) by (auto simp: fun_eq_iff map_add_def split: option.split)
  ultimately have "service_of (snd (insert_breakpoint v s)) (fl\<lparr>fl_opening := remove1 v (fl_opening fl)\<rparr>)
      = ?a\<lparr>sp_opening := sp_opening ?a - {bv_id v}, sp_active := (sp_active ?a)(bv_id v \<mapsto> v)\<rparr>"
    unfolding insert_mset(1) [OF assms] by (simp add: service_of_def)
  moreover have "bv_id v \<in> sp_opening ?a" "sp_active ?a (bv_id v) = None"
    using assms(2) \<open>map_of (sv_breakpoints s) (bv_id v) = None\<close> by (simp_all add: service_of_def)
  ultimately show ?thesis using service_list [of v ?a] by simp
qed

lemma unlist_view:
  assumes "map_of (sv_breakpoints s) i \<noteq> None"
  shows "service_step (service_of s fl)
    (service_of (s\<lparr>sv_breakpoints := AList.delete i (sv_breakpoints s)\<rparr>) (fl\<lparr>fl_closing := i # fl_closing fl\<rparr>))"
proof -
  let ?a = "service_of s fl"
  have "sp_active ?a i \<noteq> None" using assms by (simp add: service_of_def)
  from service_delete [OF this] show ?thesis by (simp add: service_of_def delete_conv')
qed

lemma maps_view:
  assumes "snd (answer_maps (run v (with_maps job) (s, k))) = (s', k')" and "not_panic v"
  shows "service_of s' fl = service_of s fl"
  using with_maps_cache [OF assms(2), of job "(s, k)"] assms(1) by auto

lemma server_step_view:
  "server_step env x y \<Longrightarrow> server_inv (fst x) (fst (snd x)) \<Longrightarrow>
     service_step\<^sup>=\<^sup>= (service_of (fst x) (fst (snd x))) (service_of (fst y) (fst (snd y)))"
proof (induction rule: server_step.induct)
  case (step_prepare_failed s t rq k e s' k' fl)
  then show ?case using prepare_view [of s fl env t rq k "Inl e" s' k'] by (simp add: server_inv_def)
next
  case (step_prepare s t rq k v s' k' fl)
  then show ?case using prepare_view [of s fl env t rq k "Inr v" s' k'] by (simp add: server_inv_def)
next
  case (step_insert v fl s k)
  then show ?case using insert_view [of s fl v] by (simp add: server_inv_def)
next
  case (step_unlist s i fl k)
  then show ?case using unlist_view [of s i fl] by simp
next
  case (step_stop i fl s k)
  then show ?case by (simp add: service_of_def)
next
  case (step_maps v now pid s k s' k' fl)
  from maps_view [OF step_maps(2) [unfolded list_maps_handler_def] step_maps(1)] show ?case by simp
next
  case (step_resolve v t pid addr s k s' k' fl)
  from maps_view [OF step_resolve(2) [unfolded resolve_address_def] step_resolve(1)] show ?case by simp
next
  case (step_poll ptr j s k s' k' fl)
  then show ?case using poll_view [of s fl env ptr j k] by simp
next
  case (step_worker t fl s k ph s' k')
  then show ?case using worker_view [of env t fl s k ph s' k'] by simp
qed (simp_all add: service_of_memory)

interpretation srv_ref: refinement server_start "server_step env" "\<lambda>x. server_inv (fst x) (fst (snd x))"
    "\<lambda>a. a = service_start" service_step "\<lambda>x. service_of (fst x) (fst (snd x))"
  for env :: "'k env"
proof unfold_locales
  fix x :: "'k system"
  assume "server_start x"
  then show "service_of (fst x) (fst (snd x)) = service_start"
    by (auto simp: server_start_def service_of_def service_start_def initial_server_def no_inflight_def)
qed (rule server_step_view)

subsection \<open>What the service keeps\<close>

lemma service_fifo:
  "service_step a b \<Longrightarrow> \<exists>new. all_reports b = all_reports a @ new"
  by (erule service_stepE) (auto simp: all_reports_def)

lemma service_retired:
  assumes "service_step a b" and "unat i \<le> sp_given a \<and> i \<notin> sp_opening a \<and> sp_active a i = None"
  shows "unat i \<le> sp_given b \<and> i \<notin> sp_opening b \<and> sp_active b i = None"
  using assms(1)
proof cases
  case service_open
  have "of_nat (Suc (sp_given a)) \<noteq> i"
    using assms(2) service_open(2) unat_of_nat_u64 [of "Suc (sp_given a)"] by auto
  with service_open assms(2) show ?thesis by simp
qed (use assms(2) in auto)

lemma service_known:
  assumes "service_step a b"
    and "list_all (\<lambda>n. 0 < unat (rp_breakpoint n) \<and> unat (rp_breakpoint n) \<le> sp_given a) (all_reports a)"
  shows "list_all (\<lambda>n. 0 < unat (rp_breakpoint n) \<and> unat (rp_breakpoint n) \<le> sp_given b) (all_reports b)"
  using assms by cases (auto simp: all_reports_def list_all_iff le_SucI)

subsection \<open>Properties\<close>

text \<open>
  C1: the server refines the abstract service: it starts as the service starts, and whatever runs, in
  whatever order, every step is a step of the service on what is visible of it, or invisible.
\<close>

theorem server_refines_service:
  assumes "reachable env (s, fl, k)" and "server_step env (s, fl, k) (s', fl', k')"
  shows "service_step\<^sup>=\<^sup>= (service_of s fl) (service_of s' fl') \<and> service_step\<^sup>*\<^sup>* service_start (service_of s fl)"
proof -
  from assms(1) obtain x0 where x0: "server_start x0" "(server_step env)\<^sup>*\<^sup>* x0 (s, fl, k)" by blast
  have "service_of (fst x0) (fst (snd x0)) = service_start" using srv_ref.view_init [OF x0(1)] .
  with srv_ref.view_reachable [OF x0] have "service_step\<^sup>*\<^sup>* service_start (service_of s fl)" by simp
  moreover have "server_inv s fl" using reachable_inv [OF assms(1)] by (simp add: server_inv_def)
  ultimately show ?thesis using server_step_view [OF assms(2)] by simp
qed

theorem server_refines_service_witness:
  "service_step\<^sup>*\<^sup>* service_start (service_of demo_sv2 no_inflight)"
  using server_refines_service [OF demo_reachable2 step_world] by (simp add: demo_env_def)

text \<open>
  C2: a sample that the queue has accepted is neither lost nor repeated nor overtaken: along every
  run, the hits made, followed by the sample the worker holds and the samples still waiting, only ever
  grow at their end.
\<close>

theorem accepted_samples_fifo:
  assumes "reachable env (s, fl, k)" and "(server_step env)\<^sup>*\<^sup>* (s, fl, k) (s', fl', k')"
  shows "\<exists>new. map report_of_hit (sv_sent s') @ map report_of_sample (held fl' @ sv_queue s')
    = map report_of_hit (sv_sent s) @ map report_of_sample (held fl @ sv_queue s) @ new"
proof -
  let ?P = "\<lambda>a. \<exists>new. all_reports a = all_reports (service_of s fl) @ new"
  from assms(1) obtain x0 where x0: "server_start x0" "(server_step env)\<^sup>*\<^sup>* x0 (s, fl, k)" by blast
  have "?P b" if "service_step a b" "?P a" for a b using service_fifo [OF that(1)] that(2) by fastforce
  from srv_ref.view_preserves [of ?P, OF this x0 assms(2)] show ?thesis by (simp add: all_reports_of)
qed

theorem accepted_samples_fifo_witness:
  "\<exists>new. map report_of_hit (sv_sent (fst demo_hits)) @ map report_of_sample (held no_inflight @ sv_queue (fst demo_hits))
    = report_of_sample (demo_sample 7) # new"
proof -
  obtain s k where h: "hit_worker_turn demo_env demo_times (demo_sv2, demo_k1) = (s, k)" by fastforce
  have "sv_sent demo_sv2 = [] \<and> sv_queue demo_sv2 = [demo_sample 7]"
    by (simp add: demo_sv2_def demo_sv1_def demo_sv_def initial_server_def)
  moreover have "(server_step demo_env)\<^sup>*\<^sup>* (demo_sv2, no_inflight, demo_k1) (s, no_inflight, k)"
    by (rule worker_turn_steps [OF _ h]) (simp add: no_inflight_def)
  ultimately show ?thesis using accepted_samples_fifo [OF demo_reachable2] h
    by (fastforce simp: demo_hits_def held_in_def no_inflight_def)
qed

text \<open>
  C6: the hit worker makes progress and never stops short: left alone for four steps per waiting sample
  and for the steps the sample in its hand still needs, it has turned all of them into hits, in their
  order, and waits on an empty queue. More steps change nothing.
\<close>

theorem queue_drained:
  assumes "reachable env (s, fl, k)" and "steps_left (fl_worker fl) + 4 * length (sv_queue s) \<le> length ts"
    and "fold (worker_step env) ts (fl_worker fl, s, k) = (ph, s', k')"
  shows "ph = Waiting \<and> sv_queue s' = []
    \<and> map report_of_hit (sv_sent s') = map report_of_hit (sv_sent s) @ map report_of_sample (held fl @ sv_queue s)
    \<and> sv_hit_buffer s' = last_n (sv_hit_buffer_limit s) (sv_sent s')"
proof -
  note run = worker_run [OF assms(3)]
  from run assms(2) have todo: "steps_left ph + 4 * length (sv_queue s') = 0" by simp
  from run have reports: "map report_of_hit (sv_sent s') @ map report_of_sample (held_in ph @ sv_queue s')
      = map report_of_hit (sv_sent s) @ map report_of_sample (held fl @ sv_queue s)"
    and limit: "sv_hit_buffer_limit s' = sv_hit_buffer_limit s" by blast+
  have "hits_inv s'" using reachable_inv [OF reachable_steps [OF assms(1) worker_run_steps [OF assms(3)]]] by simp
  moreover from todo have "ph = Waiting" by (cases ph) simp_all
  ultimately show ?thesis using todo reports limit by (simp add: hits_inv_def held_in_def)
qed

theorem queue_drained_witness:
  "\<exists>h s k. fold (worker_step demo_env) (replicate 5 demo_times) (Waiting, demo_sv2, demo_k1) = (Waiting, s, k)
    \<and> sv_queue s = [] \<and> sv_sent s = [h] \<and> report_of_hit h = report_of_sample (demo_sample 7)"
proof -
  obtain ph s k where f: "fold (worker_step demo_env) (replicate 5 demo_times) (Waiting, demo_sv2, demo_k1) = (ph, s, k)"
    by (metis prod_cases3)
  have "sv_sent demo_sv2 = [] \<and> sv_queue demo_sv2 = [demo_sample 7]"
    by (simp add: demo_sv2_def demo_sv1_def demo_sv_def initial_server_def)
  with queue_drained [OF demo_reachable2, of "replicate 5 demo_times" ph s k] f show ?thesis
    by (auto simp: no_inflight_def held_in_def)
qed

text \<open>
  C3: a sample reaches the client. Once a polling thread hands on a sample while the queue has
  room, the worker, left alone for four steps per waiting sample and what its own still needs, makes
  it the newest hit, and \<open>GET /hits?limit=1\<close> answers with that hit: the sample's breakpoint, process,
  thread, registers, vector registers and backtrace.
\<close>

theorem sample_reaches_client:
  assumes "reachable env (s, fl, k)" and "sv_receiver s" and "0 < sv_hit_buffer_limit s"
    and "j < length (sv_threads s)" and "pt_phase (sv_threads s ! j) = In_Round ids failed (d # ds)"
    and "length (sv_queue s) < SAMPLE_QUEUE_CAPACITY" and "poll_step env ptr j (s, k) = (s1, k1)"
    and "steps_left (fl_worker fl) + 4 * Suc (length (sv_queue s)) \<le> length ts"
    and "fold (worker_step env) ts (fl_worker fl, s1, k1) = (ph, s2, k2)"
  shows "\<exists>h. get_hits False (Some 1) s2 = json_response [h]
    \<and> report_of_hit h = report_of_sample \<lparr>qs_breakpoint_id = pt_id (sv_threads s ! j),
        qs_pid = pt_pid (sv_threads s ! j), qs_data = d\<rparr>"
proof -
  let ?q = "\<lparr>qs_breakpoint_id = pt_id (sv_threads s ! j), qs_pid = pt_pid (sv_threads s ! j), qs_data = d\<rparr>"
  have s1: "sv_queue s1 = sv_queue s @ [?q]" "sv_hit_buffer_limit s1 = sv_hit_buffer_limit s"
    using assms(2,4-7) by (auto simp: poll_step_def Let_def offer_sample_def)
  have "reachable env (s1, fl, k1)" by (rule reachable_step [OF assms(1) step_poll [OF assms(7)]])
  from reachable_inv [OF reachable_steps [OF this worker_run_steps [OF assms(9)]]] have inv: "hits_inv s2" by simp
  note run = worker_run [OF assms(9)]
  then have "steps_left ph + 4 * length (sv_queue s2) = 0" using assms(8) s1 by simp
  then have "sv_queue s2 = []" "held_in ph = []" by (cases ph; simp add: held_in_def)+
  with run s1 have last: "map report_of_hit (sv_sent s2)
      = (map report_of_hit (sv_sent s1) @ map report_of_sample (held fl @ sv_queue s)) @ [report_of_sample ?q]"
    and limit: "sv_hit_buffer_limit s2 = sv_hit_buffer_limit s" by simp_all
  from last obtain hs h where h: "sv_sent s2 = hs @ [h]" "report_of_hit h = report_of_sample ?q"
    by (rule map_eq_snocE)
  have "get_hits False (Some 1) s2 = json_response (last_n (min 1 (sv_hit_buffer_limit s2)) (sv_sent s2))"
    using inv by (simp add: get_hits_def try_lock_def hits_inv_def rev_take_rev last_n_min)
  also have "min 1 (sv_hit_buffer_limit s2) = 1" using assms(3) limit by simp
  finally show ?thesis using h by (intro exI [of _ h]) (simp add: last_n_def)
qed

theorem sample_reaches_client_witness:
  "\<exists>h s k. get_hits False (Some 1) s = json_response [h] \<and> report_of_hit h = report_of_sample (demo_sample 7)
    \<and> fold (worker_step demo_env) (replicate 4 demo_times) (Waiting, demo_sv2, demo_k1) = (Waiting, s, k)"
proof -
  let ?s = "demo_sv1 (In_Round [8] 0 [sample_of_hit (demo_hit 7)])"
  have "reachable demo_env (?s, no_inflight, demo_k1)"
    using reachable_step [OF reachable_step [OF demo_reachable1], OF step_poll step_poll, OF demo_poll(1,2)] .
  moreover obtain ph s k where f: "fold (worker_step demo_env) (replicate 4 demo_times) (Waiting, demo_sv2, demo_k1) = (ph, s, k)"
    by (metis prod_cases3)
  moreover have "sv_queue demo_sv2 = [demo_sample 7]" by (simp add: demo_sv2_def)
  then have "ph = Waiting" using f by (cases rule: worker_turn_cases [of demo_sv2 demo_env demo_times demo_k1]) simp_all
  ultimately show ?thesis
    using sample_reaches_client [of demo_env ?s no_inflight demo_k1 0 "[8]" 0 "sample_of_hit (demo_hit 7)" "[]" 0 demo_sv2 demo_k1
        "replicate 4 demo_times" ph s k] demo_poll(3)
    by (auto simp: no_inflight_def demo_sv1_def demo_sv_def initial_server_def demo_thread_def demo_sample_def
        SAMPLE_QUEUE_CAPACITY_def)
qed

text \<open>
  C10: a number is used for one breakpoint only: once a number has been given out and is neither being
  opened nor listed, because its creation failed or it was deleted, no later state lists it again.
\<close>

theorem deleted_stays_deleted:
  assumes "reachable env (s, fl, k)" and "(server_step env)\<^sup>*\<^sup>* (s, fl, k) (s', fl', k')"
    and "unat i < unat (sv_next_breakpoint_id s)" and "map_of (sv_breakpoints s) i = None"
    and "i \<notin> bv_id ` set (fl_opening fl)"
  shows "map_of (sv_breakpoints s') i = None"
proof -
  let ?P = "\<lambda>a. unat i \<le> sp_given a \<and> i \<notin> sp_opening a \<and> sp_active a i = None"
  from assms(1) obtain x0 where x0: "server_start x0" "(server_step env)\<^sup>*\<^sup>* x0 (s, fl, k)" by blast
  have "?P (service_of s fl)" using assms(3-5) by (auto simp: service_of_def)
  with srv_ref.view_preserves [of ?P, OF service_retired x0 assms(2)] show ?thesis by (simp add: service_of_def)
qed

theorem deleted_stays_deleted_witness:
  "map_of (sv_breakpoints (fst (poll_step demo_env 0 0 (demo_cancelled, demo_k1)))) 1 = None"
proof -
  obtain s k where p: "poll_step demo_env 0 0 (demo_cancelled, demo_k1) = (s, k)" by fastforce
  obtain r where d: "delete_breakpoint False 1 (demo_sv1 Between) = (r, demo_cancelled)"
    by (metis demo_cancelled_def prod.collapse)
  have "reachable demo_env (demo_cancelled, no_inflight, demo_k1)"
    by (rule reachable_steps [OF demo_reachable1 delete_steps [OF d]])
  moreover have "(server_step demo_env)\<^sup>*\<^sup>* (demo_cancelled, no_inflight, demo_k1) (s, no_inflight, k)"
    using step_poll [OF p] by blast
  moreover have "unat (1 :: u64) < unat (sv_next_breakpoint_id demo_cancelled)" "map_of (sv_breakpoints demo_cancelled) 1 = None"
      "1 \<notin> bv_id ` set (fl_opening no_inflight)"
    by (simp_all add: demo_cancelled_def delete_breakpoint_def try_lock_def demo_sv1_def demo_sv_def initial_server_def no_inflight_def)
  ultimately have "map_of (sv_breakpoints s) 1 = None"
    by (rule deleted_stays_deleted [of demo_env demo_cancelled no_inflight demo_k1 s no_inflight k 1])
  then show ?thesis by (simp add: p)
qed

text \<open>
  Every hit and every accepted sample belongs to a breakpoint the server has created: its number
  has been given out before.
\<close>

lemma hits_of_known_breakpoints:
  assumes "reachable env (s, fl, k)"
  shows "list_all (\<lambda>h. 0 < unat (ht_breakpoint_id h) \<and> unat (ht_breakpoint_id h) < unat (sv_next_breakpoint_id s)) (sv_sent s)
    \<and> list_all (\<lambda>q. 0 < unat (qs_breakpoint_id q) \<and> unat (qs_breakpoint_id q) < unat (sv_next_breakpoint_id s)) (held fl @ sv_queue s)"
proof -
  let ?P = "\<lambda>a. list_all (\<lambda>n. 0 < unat (rp_breakpoint n) \<and> unat (rp_breakpoint n) \<le> sp_given a) (all_reports a)"
  from assms obtain x0 where x0: "server_start x0" "(server_step env)\<^sup>*\<^sup>* x0 (s, fl, k)" by blast
  have "?P (service_of (fst x0) (fst (snd x0)))"
    using srv_ref.view_init [OF x0(1)] by (simp add: service_start_def all_reports_def)
  with srv_ref.view_preserves [of ?P, OF service_known x0(1) rtranclp.rtrancl_refl x0(2)]
  have "?P (service_of s fl)" by simp
  moreover have "0 < unat (sv_next_breakpoint_id s)"
    using reachable_inv [OF assms] by (simp add: breakpoints_inv_def)
  moreover have "sp_given (service_of s fl) = unat (sv_next_breakpoint_id s) - 1" by (simp add: service_of_def)
  ultimately show ?thesis
    by (simp add: all_reports_of list.pred_map comp_def report_of_hit_def report_of_sample_def)
      (auto simp: list_all_length)
qed

end
