(* ===== verification/Server_Resources.thy ===== *)
theory Server_Resources
  imports Server_Properties
begin

section \<open>What the server holds in the kernel\<close>

text \<open>
  Every descriptor of the driver belongs to one polling thread or one memory request, and every
  breakpoint installed in the kernel to one polling thread or it is one whose removal the driver has
  refused, in every interleaving of the server's steps, provided the kernel keeps its laws and nothing
  else in the world touches the descriptors and breakpoints the server has obtained from the driver.
\<close>

subsection \<open>What leaves a part of the world alone\<close>

definition reads_keep :: "('w \<Rightarrow> str \<Rightarrow> 'r \<times> 'w) \<Rightarrow> ('w \<Rightarrow> 'f) \<Rightarrow> bool" where
  "reads_keep rd f \<longleftrightarrow> (\<forall>w p. f (snd (rd w p)) = f w)"

text \<open>
  Reading files, directories and links, listing threads and the rest of the world do not change
  \<open>f\<close>: what they open, if anything, they have closed again when they return.
\<close>

definition env_keeps :: "'k env \<Rightarrow> ('k \<Rightarrow> 'f) \<Rightarrow> bool" where
  "env_keeps env f \<longleftrightarrow> reads_keep (pf_text (en_fs env)) f \<and> reads_keep (pf_bytes (en_fs env)) f
     \<and> reads_keep (pf_dir (en_fs env)) f \<and> reads_keep (pf_link (en_fs env)) f \<and> quiet (en_tasks env) f
     \<and> (\<forall>k k'. en_world env k k' \<longrightarrow> f k' = f k)"

lemma regions_with_keeps:
  assumes "reads_keep rd f" and "regions_with rd now pid frc c w = (r, c', w')"
  shows "f w' = f w"
proof -
  obtain x w1 where m: "rd w (maps_path pid) = (x, w1)" by fastforce
  then have "f w1 = f w" using assms(1) unfolding reads_keep_def by (metis snd_conv)
  then show ?thesis using assms(2) m
    by (auto simp: regions_with_def read_maps_def split: sum.splits option.splits prod.splits)
qed

lemma list_maps_keeps:
  "reads_keep rd f \<Longrightarrow> list_maps rd now pid c w = (r, c', w') \<Longrightarrow> f w' = f w"
  by (auto simp: list_maps_def split: prod.splits dest: regions_with_keeps)

lemma resolve_cached_keeps:
  "reads_keep rd f \<Longrightarrow> resolve_cached rd now pid a frc c w = (r, c', w') \<Longrightarrow> f w' = f w"
  by (auto simp: resolve_cached_def split: prod.splits dest: regions_with_keeps)

lemma resolve_keeps:
  assumes "reads_keep rd f" and "resolve rd now pid a c w = (r, c', w')"
  shows "f w' = f w"
proof -
  obtain m c1 w1 where 1: "resolve_cached rd now pid a False c w = (m, c1, w1)" by (metis prod_cases3)
  note k = resolve_cached_keeps [OF assms(1)]
  show ?thesis using assms(2) 1 k [OF 1] by (cases m) (auto simp: resolve_def dest: k)
qed

lemma resolve_many_keeps:
  assumes "reads_keep rd f" and "resolve_many_addresses rd now pid as c w = (r, c', w')"
  shows "f w' = f w"
proof -
  note k = regions_with_keeps [OF assms(1)]
  obtain r1 c1 w1 where 1: "regions_with rd now pid False c w = (r1, c1, w1)" by (metis prod_cases3)
  obtain r2 c2 w2 where 2: "regions_with rd now pid True c1 w1 = (r2, c2, w2)" by (metis prod_cases3)
  have "w' \<in> {w, w1, w2}" using assms(2) 1 2
    by (auto simp: resolve_many_addresses_def Let_def split: if_splits sum.splits)
  then show ?thesis using k [OF 1] k [OF 2] by auto
qed

lemma resolve_expression_keeps:
  assumes "reads_keep rd f" and "resolve_expression rd now1 now2 pid e c w = (r, c', w')"
  shows "f w' = f w"
proof -
  obtain x c1 w1 where 1: "(case parse_numeric_addr (trim e) of Some a \<Rightarrow> (Inr a, c, w)
      | None \<Rightarrow> resolve_module_offset rd now1 pid e c w) = (x, c1, w1)" by (metis prod_cases3)
  then have w1: "f w1 = f w" using regions_with_keeps [OF assms(1)]
    by (auto simp: resolve_module_offset_def split: option.splits prod.splits sum.splits)
  show ?thesis
  proof (cases x)
    case (Inl err)
    then show ?thesis using assms(2) 1 w1 by (simp add: resolve_expression_def)
  next
    case (Inr a)
    obtain m c2 w2 where "resolve rd now2 pid a c1 w1 = (m, c2, w2)" by (metis prod_cases3)
    then show ?thesis using assms(2) 1 w1 Inr resolve_keeps [OF assms(1)] by (fastforce simp: resolve_expression_def)
  qed
qed

lemma read_process_keeps:
  assumes "reads_keep (pf_text F) f" and "reads_keep (pf_bytes F) f" and "reads_keep (pf_link F) f"
  shows "f (snd (read_process F pid w)) = f w"
proof -
  obtain st w1 where 1: "pf_text F w (proc_path pid ''status'') = (st, w1)" by fastforce
  obtain cm w2 where 2: "pf_text F w1 (proc_path pid ''comm'') = (cm, w2)" by fastforce
  obtain cl w3 where 3: "pf_bytes F w2 (proc_path pid ''cmdline'') = (cl, w3)" by fastforce
  obtain ex w4 where 4: "pf_link F w3 (proc_path pid ''exe'') = (ex, w4)" by fastforce
  have "f w4 = f w" using assms 1 2 3 4 unfolding reads_keep_def by (metis snd_conv)
  with 1 2 3 4 show ?thesis by (simp add: read_process_def Let_def)
qed

lemma read_processes_keeps:
  assumes "reads_keep (pf_text F) f" and "reads_keep (pf_bytes F) f" and "reads_keep (pf_dir F) f"
    and "reads_keep (pf_link F) f"
  shows "f (snd (read_processes F q w)) = f w"
proof -
  have visit: "f (snd (visit F needle e w)) = f w" for needle e w
    using read_process_keeps [OF assms(1,2,4)]
    by (auto simp: visit_def split: option.splits prod.splits) (metis snd_conv)+
  have walk: "f (snd (walk F needle es w)) = f w" for needle es w
  proof (induction es arbitrary: w)
    case (Cons e es)
    obtain p w1 where v: "visit F needle e w = (p, w1)" by fastforce
    obtain ps w2 where r: "walk F needle es w1 = (ps, w2)" by fastforce
    have "f w2 = f w1" using Cons [of w1] r by simp
    moreover have "f w1 = f w" using visit [of needle e w] v by simp
    ultimately show ?case using v r by (simp split: option.split)
  qed simp
  obtain d w1 where d: "pf_dir F w ''/proc'' = (d, w1)" by fastforce
  then have "f w1 = f w" using assms(3) unfolding reads_keep_def by (metis snd_conv)
  then show ?thesis using d walk [of _ _ w1] by (cases d) (simp_all add: read_processes_def Let_def split: prod.split, metis snd_conv)
qed

lemma list_processes_keeps:
  assumes "env_keeps env f" and "not_panic v"
  shows "f (snd (list_processes env v q k)) = f k"
proof -
  have "f (snd (read_processes (en_fs env) q k)) = f k"
    using assms(1) by (intro read_processes_keeps) (simp_all add: env_keeps_def)
  then have "f (snd (run v (read_processes (en_fs env) q) k)) = f k" using assms(2) by (rule run_frame)
  then show ?thesis by (auto simp: list_processes_def split: prod.split sum.split)
qed

lemma with_maps_keeps:
  assumes "\<And>c k r c' k'. job c k = (r, c', k') \<Longrightarrow> f k' = f k" and "not_panic v"
    and "snd (answer_maps (run v (with_maps job) (s, k))) = (s', k')"
  shows "f k' = f k \<and> sv_threads s' = sv_threads s"
proof -
  let ?P = "\<lambda>sk. f (snd sk) = f k \<and> sv_threads (fst sk) = sv_threads s"
  obtain r c k1 where j: "job (sv_maps s) k = (r, c, k1)" by (metis prod_cases3)
  have "?P (snd (run v (with_maps job) (s, k)))"
    using j assms(1) [OF j] by (intro run_inv [where P = ?P, OF _ _ assms(2)]) (simp_all add: with_maps_def)
  then show ?thesis using assms(3) by (auto simp: answer_maps_def split: prod.splits sum.splits)
qed

lemma prepare_failed_early:
  assumes "env_keeps env f" and "prepare_breakpoint env t rq (s, k) = (r, (s', k'))"
  shows "(sv_threads s' = sv_threads s \<and> f k' = f k) \<or>
    (\<exists>ty_len resolved flt c k1. f k1 = f k \<and>
       start_breakpoint env t rq ty_len resolved flt (s\<lparr>sv_maps := c\<rparr>) k1 = (r, (s', k')))"
proof (cases "parse_watchpoint_type (en_sys env) (cq_type_name rq)")
  case None
  then show ?thesis using assms(2) by (simp add: prepare_breakpoint_def)
next
  case (Some ty_len)
  obtain q c k1 where q: "resolve_expression (pf_text (en_fs env)) (tm_first t) (tm_second t) (cq_pid rq)
      (cq_addr rq) (sv_maps s) k = (q, c, k1)" by (metis prod_cases3)
  then have k1: "f k1 = f k" using assms(1) resolve_expression_keeps unfolding env_keeps_def by metis
  show ?thesis
  proof (cases "\<exists>resolved flt. q = Inr resolved \<and> parse_filter_option (en_arch env) (cq_filter rq) = Inr flt")
    case True
    then obtain resolved flt where "q = Inr resolved" "parse_filter_option (en_arch env) (cq_filter rq) = Inr flt"
      by blast
    then have "start_breakpoint env t rq ty_len resolved flt (s\<lparr>sv_maps := c\<rparr>) k1 = (r, (s', k'))"
      using Some q assms(2) by (simp add: prepare_breakpoint_def Let_def)
    with k1 show ?thesis by blast
  next
    case False
    then have "sv_threads s' = sv_threads s \<and> k' = k1"
      using Some q assms(2) by (auto simp: prepare_breakpoint_def Let_def split: sum.splits)
    with k1 show ?thesis by simp
  qed
qed

subsection \<open>Who holds what\<close>

text \<open>What a polling thread has still to remove: all its breakpoints until it starts to remove them.\<close>

definition pending :: "watcher \<Rightarrow> watch_phase \<Rightarrow> i32 list" where
  "pending w ph = (case ph of Removing ids \<Rightarrow> ids | _ \<Rightarrow> wt_breakpoints w)"

lemma pending_simps [simp]:
  "pending w Between = wt_breakpoints w"
  "pending w (In_Round ids failed ds) = wt_breakpoints w"
  "pending w (Removing ids) = ids"
  by (simp_all add: pending_def)

abbreviation thread_fd :: "poll_thread \<Rightarrow> i32" where
  "thread_fd t \<equiv> wt_fd (pt_watcher t)"

abbreviation to_remove :: "poll_thread \<Rightarrow> i32 list" where
  "to_remove t \<equiv> pending (pt_watcher t) (pt_phase t)"

text \<open>
  Of the descriptors \<open>fs\<close> and breakpoints \<open>bs\<close>, those beyond the ones of the start, \<open>F\<close> and \<open>B\<close>, are
  the descriptors \<open>ds\<close> and the breakpoints \<open>os\<close> of the threads, none held twice; only a breakpoint
  whose removal was refused (\<open>rs\<close>) may belong to nobody.
\<close>

definition holds :: "i32 set \<Rightarrow> i32 set \<Rightarrow> i32 list \<Rightarrow> i32 list list \<Rightarrow> i32 set \<Rightarrow> i32 set \<Rightarrow> i32 set \<Rightarrow> bool" where
  "holds F B ds os fs bs rs \<longleftrightarrow>
     distinct ds \<and> F \<inter> set ds = {} \<and> fs = F \<union> set ds \<and>
     distinct (concat os) \<and> B \<inter> set (concat os) = {} \<and>
     B \<union> set (concat os) \<subseteq> bs \<and> bs \<subseteq> B \<union> set (concat os) \<union> rs"

lemma holds_start: "holds F B [] [] F B rs"
  by (simp add: holds_def)

lemma holds_open: "holds F B ds os fs bs rs \<Longrightarrow> d \<notin> fs \<Longrightarrow> holds F B (d # ds) os (insert d fs) bs rs"
  by (auto simp: holds_def)

lemma holds_add:
  "holds F B ds os fs bs rs \<Longrightarrow> d \<notin> fs \<Longrightarrow> bs \<inter> set ids = {} \<Longrightarrow> distinct ids \<Longrightarrow>
     holds F B (ds @ [d]) (os @ [ids]) (insert d fs) (bs \<union> set ids) rs"
  unfolding holds_def by (auto simp: distinct_append)

lemma holds_close: "holds F B (xs @ d # ys) os fs bs rs \<Longrightarrow> holds F B (xs @ ys) os (fs - {d}) bs rs"
  by (auto simp: holds_def)

lemma holds_done: "holds F B ds (us @ [] # vs) fs bs rs \<Longrightarrow> holds F B ds (us @ vs) fs bs rs"
  by (simp add: holds_def)

lemma holds_remove:
  assumes "holds F B ds (us @ (b # ids) # vs) fs (bps k) (refused k)" and "removal_effect bps refused [b] k k'"
  shows "holds F B ds (us @ ids # vs) fs (bps k') (refused k')"
proof -
  define X where "X = set (concat (us @ ids # vs))"
  have X: "set (concat (us @ (b # ids) # vs)) = insert b X" by (auto simp: X_def)
  from assms(1) have d: "distinct ds" "F \<inter> set ds = {}" "fs = F \<union> set ds"
    "distinct (concat (us @ ids # vs))" "b \<notin> X" and h: "B \<inter> insert b X = {}" "B \<union> insert b X \<subseteq> bps k"
      "bps k \<subseteq> B \<union> insert b X \<union> refused k"
    unfolding holds_def X by (auto simp: X_def)
  from assms(2) have e: "bps k - {b} \<subseteq> bps k'" "bps k' \<subseteq> bps k" "bps k' \<inter> {b} \<subseteq> refused k'" "refused k \<subseteq> refused k'"
    by (simp_all add: removal_effect_def)
  have "B \<inter> X = {}" "B \<union> X \<subseteq> bps k'" "bps k' \<subseteq> B \<union> X \<union> refused k'" using h e d(5) by blast+
  with d show ?thesis unfolding holds_def X_def by blast
qed

lemma map_split: "j < length xs \<Longrightarrow> map f xs = map f (take j xs) @ f (xs ! j) # map f (drop (Suc j) xs)"
  by (metis (no_types, lifting) id_take_nth_drop list.simps(9) map_append)

text \<open>The laws the theorems rest on.\<close>

definition env_laws :: "'k env \<Rightarrow> ('k \<Rightarrow> i32 set) \<Rightarrow> ('k \<Rightarrow> i32 set) \<Rightarrow> ('k \<Rightarrow> i32 set) \<Rightarrow> bool" where
  "env_laws env fds bps refused \<longleftrightarrow> fd_laws (en_kernel env) fds \<and> bp_laws (en_kernel env) bps refused
     \<and> kernel_sane (en_kernel env) \<and> env_keeps env (\<lambda>k. (fds k, bps k, refused k))"

lemma env_lawsD:
  assumes "env_laws env fds bps refused"
  shows "fd_laws (en_kernel env) fds" and "bp_laws (en_kernel env) bps refused" and "kernel_sane (en_kernel env)"
    and "env_keeps env (\<lambda>k. (fds k, bps k, refused k))"
  using assms by (simp_all add: env_laws_def)

text \<open>What one step of a polling thread does to the kernel.\<close>

lemma watch_step_effect:
  assumes "env_laws env fds bps refused" and "watch_step (en_kernel env) ptr w x ph c k = (out, st, k')"
  shows "case st of
      None \<Rightarrow> ph = Removing [] \<and> fds k' = fds k - {wt_fd w} \<and> bps k' = bps k \<and> refused k' = refused k
    | Some (ph', c') \<Rightarrow> fds k' = fds k \<and>
        ((pending w ph' = pending w ph \<and> bps k' = bps k \<and> refused k' = refused k)
         \<or> (\<exists>b. pending w ph = b # pending w ph' \<and> removal_effect bps refused [b] k k'))"
  using assms(2)
proof (cases "(en_kernel env, ptr, w, x, ph, c, k)" rule: watch_step.cases)
  case (3 K ptr' w' x' bp ids failed c' k0)
  obtain r k1 where h: "driver_hits (en_kernel env) ptr (wt_fd w) bp k = (r, k1)" by fastforce
  have "fds k1 = fds k" "bps k1 = bps k \<and> refused k1 = refused k"
    using driver_hits_fds [OF env_lawsD(1) [OF assms(1)] h] driver_hits_bps [OF env_lawsD(2) [OF assms(1)] h] by auto
  with 3 h assms(2) show ?thesis by (cases r) auto
next
  case (5 K ptr' w' x' b ids c' k0)
  have "fds (snd (driver_remove (en_kernel env) (wt_fd w) b k)) = fds k"
    by (rule driver_remove_fds [OF env_lawsD(1) [OF assms(1)]])
  moreover have "removal_effect bps refused [b] k (snd (driver_remove (en_kernel env) (wt_fd w) b k))"
    by (rule driver_remove_bps [OF env_lawsD(2) [OF assms(1)]])
  ultimately show ?thesis using 5 assms(2) by auto
next
  case (6 K ptr' w' x' c' k0)
  then show ?thesis
    using assms(2) fd_laws_close [OF env_lawsD(1) [OF assms(1)]] bp_laws_close [OF env_lawsD(2) [OF assms(1)]]
    by (auto simp: driver_drop_def)
qed (use assms(2) in \<open>auto simp: Let_def\<close>)

text \<open>The invariant on a state of the server.\<close>

definition resources_inv ::
  "('k \<Rightarrow> i32 set) \<Rightarrow> ('k \<Rightarrow> i32 set) \<Rightarrow> ('k \<Rightarrow> i32 set) \<Rightarrow> i32 set \<Rightarrow> i32 set \<Rightarrow> 'k system \<Rightarrow> bool" where
  "resources_inv fds bps refused F B x = (case x of (s, fl, k) \<Rightarrow>
     holds F B (fl_memory fl @ map thread_fd (sv_threads s)) (map to_remove (sv_threads s)) (fds k) (bps k) (refused k))"

lemma resources_cong:
  "resources_inv fds bps refused F B (s, fl, k) \<Longrightarrow> map thread_fd (sv_threads s') = map thread_fd (sv_threads s) \<Longrightarrow>
     map to_remove (sv_threads s') = map to_remove (sv_threads s) \<Longrightarrow> fl_memory fl' = fl_memory fl \<Longrightarrow>
     fds k' = fds k \<Longrightarrow> bps k' = bps k \<Longrightarrow> refused k' = refused k \<Longrightarrow> resources_inv fds bps refused F B (s', fl', k')"
  by (simp add: resources_inv_def)

lemma poll_step_resources:
  assumes "env_laws env fds bps refused" and "resources_inv fds bps refused F B (s, fl, k)"
    and "poll_step env ptr j (s, k) = (s', k')"
  shows "resources_inv fds bps refused F B (s', fl, k')"
proof (cases "j < length (sv_threads s)")
  case True
  let ?t = "sv_threads s ! j" and ?us = "take j (sv_threads s)" and ?vs = "drop (Suc j) (sv_threads s)"
  let ?w = "pt_watcher ?t"
  obtain out st k1 where w: "watch_step (en_kernel env) ptr ?w (pt_cancel ?t) (pt_phase ?t) (pt_errors ?t) k = (out, st, k1)"
    by (metis prod_cases3)
  note eff = watch_step_effect [OF assms(1) w]
  note split = map_split [OF True]
  have inv: "holds F B ((fl_memory fl @ map thread_fd ?us) @ thread_fd ?t # map thread_fd ?vs)
      (map to_remove ?us @ to_remove ?t # map to_remove ?vs) (fds k) (bps k) (refused k)"
    using assms(2) unfolding resources_inv_def by (simp add: split [of thread_fd] split [of to_remove])
  show ?thesis
  proof (cases st)
    case None
    have ts: "sv_threads s' = ?us @ ?vs" and k': "k' = k1"
      using assms(3) True w None by (auto simp: poll_step_def Let_def)
    from eff None have e: "pt_phase ?t = Removing []" "fds k1 = fds k - {thread_fd ?t}" "bps k1 = bps k" "refused k1 = refused k"
      by auto
    from holds_done [OF holds_close [OF inv, unfolded e(1) pending_simps]] show ?thesis
      using ts k' e by (simp add: resources_inv_def)
  next
    case (Some p)
    obtain ph c where p: "p = (ph, c)" by fastforce
    let ?u = "?t\<lparr>pt_phase := ph, pt_errors := c\<rparr>"
    have ts: "sv_threads s' = ?us @ ?u # ?vs" and k': "k' = k1"
      using assms(3) True w Some p by (auto simp: poll_step_def Let_def upd_conv_take_nth_drop)
    from eff Some p have fk: "fds k1 = fds k" by simp
    from eff Some p consider
        "pending ?w ph = to_remove ?t" "bps k1 = bps k" "refused k1 = refused k"
      | b where "to_remove ?t = b # pending ?w ph" "removal_effect bps refused [b] k k1" by auto
    then have "holds F B ((fl_memory fl @ map thread_fd ?us) @ thread_fd ?t # map thread_fd ?vs)
        (map to_remove ?us @ pending ?w ph # map to_remove ?vs) (fds k) (bps k1) (refused k1)"
    proof cases
      case 1
      with inv show ?thesis by simp
    next
      case (2 b)
      from holds_remove [OF inv [unfolded 2(1)] 2(2)] show ?thesis .
    qed
    then show ?thesis using ts k' fk by (simp add: resources_inv_def)
  qed
qed (use assms in \<open>simp add: poll_step_def\<close>)

lemma prepare_resources:
  assumes "env_laws env fds bps refused" and "resources_inv fds bps refused F B (s, fl, k)"
    and "prepare_breakpoint env t rq (s, k) = (r, (s', k'))" and "fl_memory fl' = fl_memory fl"
  shows "resources_inv fds bps refused F B (s', fl', k')"
proof -
  note keeps = env_lawsD(4) [OF assms(1)]
  from prepare_failed_early [OF keeps assms(3)] show ?thesis
  proof (elim disjE exE conjE)
    fix ty_len resolved flt c k1
    assume k1: "(fds k1, bps k1, refused k1) = (fds k, bps k, refused k)"
      and st: "start_breakpoint env t rq ty_len resolved flt (s\<lparr>sv_maps := c\<rparr>) k1 = (r, (s', k'))"
    obtain o1 k2 where w: "start_watch (en_sys env) (en_kernel env) (en_tasks env)
        (request_config rq ty_len resolved flt) k1 = (o1, k2)" by fastforce
    have "quiet (en_tasks env) (\<lambda>k. (fds k, bps k, refused k))" using keeps by (simp add: env_keeps_def)
    note eff = start_driver_watch_effect [OF env_lawsD(1-3) [OF assms(1)] this w [unfolded start_watch_def]]
    show ?thesis
    proof (cases o1)
      case (Inl e)
      then have "sv_threads s' = sv_threads s" "k' = k2" using st w by (auto simp: start_breakpoint_def Let_def)
      with eff Inl k1 assms(4) show ?thesis by (intro resources_cong [OF assms(2)]) simp_all
    next
      case (Inr p)
      obtain ws wt where p: "p = (ws, wt)" by fastforce
      then obtain i where "sv_threads s' = sv_threads s @ [\<lparr>pt_id = i, pt_pid = cq_pid rq, pt_watcher = wt,
          pt_cancel = False, pt_phase = Between, pt_errors = 0\<rparr>]" and k': "k' = k2"
        using st w Inr by (auto simp: start_breakpoint_def Let_def)
      with eff Inr p k1 assms(2,4)
        holds_add [of F B "fl_memory fl @ map thread_fd (sv_threads s)" "map to_remove (sv_threads s)" "fds k" "bps k"
          "refused k" "wt_fd wt" "wt_breakpoints wt"]
      show ?thesis by (simp add: resources_inv_def)
    qed
  qed (use assms(4) in \<open>auto intro!: resources_cong [OF assms(2)]\<close>)
qed

lemma worker_step_keeps:
  assumes "env_keeps env f" and "worker_step env t (ph, s, k) = (ph', s', k')"
  shows "f k' = f k \<and> sv_threads s' = sv_threads s"
proof -
  have rd: "reads_keep (pf_text (en_fs env)) f" using assms(1) by (simp add: env_keeps_def)
  have "f k' = f k"
    using assms(2) resolve_many_keeps [OF rd]
    by (cases ph) (auto split: list.splits option.splits prod.splits)
  moreover have "sv_threads s' = sv_threads s"
    using assms(2) by (rule worker_step_cases) (simp_all add: push_hit_def Let_def)
  ultimately show ?thesis by simp
qed

lemma stop_keeps:
  "map thread_fd (stop i ts) = map thread_fd ts" "map to_remove (stop i ts) = map to_remove ts"
  by (simp_all add: stop_def)

text \<open>The calls of a memory request.\<close>

lemma driver_read_bps:
  "bp_laws K bps refused \<Longrightarrow> driver_read_memory K ptr fd pid a n k = (r, k') \<Longrightarrow> bps k' = bps k \<and> refused k' = refused k"
  by (auto simp: driver_read_memory_def driver_io_def split: prod.splits dest: bp_laws_ioctl)

lemma driver_write_bps:
  "bp_laws K bps refused \<Longrightarrow> driver_write_memory K ptr fd pid a data k = (r, k') \<Longrightarrow> bps k' = bps k \<and> refused k' = refused k"
  by (auto simp: driver_write_memory_def driver_io_def split: prod.splits dest: bp_laws_ioctl)

lemma server_step_resources:
  assumes "env_laws env fds bps refused"
  shows "server_step env x y \<Longrightarrow> resources_inv fds bps refused F B x \<Longrightarrow> resources_inv fds bps refused F B y"
proof (induction rule: server_step.induct)
  case (step_prepare_failed s t rq k e s' k' fl)
  show ?case by (rule prepare_resources [OF assms step_prepare_failed(3,2)]) simp
next
  case (step_prepare s t rq k v s' k' fl)
  show ?case by (rule prepare_resources [OF assms step_prepare(3,2)]) simp
next
  case (step_insert v fl s k)
  then show ?case by (elim resources_cong) (simp_all add: insert_breakpoint_def)
next
  case (step_unlist s i fl k)
  from step_unlist(3) show ?case by (elim resources_cong) simp_all
next
  case (step_stop i fl s k)
  from step_stop(2) show ?case by (elim resources_cong) (simp_all add: stop_keeps)
next
  case (step_maps v now pid s k s' k' fl)
  have rd: "reads_keep (pf_text (en_fs env)) (\<lambda>k. (fds k, bps k, refused k))"
    using env_lawsD(4) [OF assms] by (simp add: env_keeps_def)
  have "(fds k', bps k', refused k') = (fds k, bps k, refused k) \<and> sv_threads s' = sv_threads s"
    by (rule with_maps_keeps [where f = "\<lambda>k. (fds k, bps k, refused k)",
          OF list_maps_keeps [OF rd] step_maps(1) step_maps(2) [unfolded list_maps_handler_def]])
  with step_maps(3) show ?case by (elim resources_cong) simp_all
next
  case (step_resolve v t pid addr s k s' k' fl)
  have rd: "reads_keep (pf_text (en_fs env)) (\<lambda>k. (fds k, bps k, refused k))"
    using env_lawsD(4) [OF assms] by (simp add: env_keeps_def)
  have "(fds k', bps k', refused k') = (fds k, bps k, refused k) \<and> sv_threads s' = sv_threads s"
    by (rule with_maps_keeps [where f = "\<lambda>k. (fds k, bps k, refused k)",
          OF resolve_expression_keeps [OF rd] step_resolve(1) step_resolve(2) [unfolded resolve_address_def]])
  with step_resolve(3) show ?case by (elim resources_cong) simp_all
next
  case (step_processes v q k k' s fl)
  from list_processes_keeps [OF env_lawsD(4) [OF assms] step_processes(1), of q k] step_processes(2,3) show ?case
    by (elim resources_cong) simp_all
next
  case (step_memory_open_failed k e k' s fl)
  from driver_open_fds [OF env_lawsD(1,3) [OF assms] step_memory_open_failed(1)]
    driver_open_bps [OF env_lawsD(2) [OF assms] step_memory_open_failed(1)] step_memory_open_failed(2)
  show ?case by (elim resources_cong) simp_all
next
  case (step_memory_open k fd k' s fl)
  from driver_open_fds [OF env_lawsD(1,3) [OF assms] step_memory_open(1)]
    driver_open_bps [OF env_lawsD(2) [OF assms] step_memory_open(1)] step_memory_open(2)
  show ?case by (simp add: resources_inv_def holds_open)
next
  case (step_memory_read fd fl ptr pid addr n k r k' s)
  from driver_read_fds [OF env_lawsD(1) [OF assms] step_memory_read(2)]
    driver_read_bps [OF env_lawsD(2) [OF assms] step_memory_read(2)] step_memory_read(3)
  show ?case by (elim resources_cong) simp_all
next
  case (step_memory_write fd fl ptr pid addr data k r' k' s)
  from driver_write_fds [OF env_lawsD(1) [OF assms] step_memory_write(2)]
    driver_write_bps [OF env_lawsD(2) [OF assms] step_memory_write(2)] step_memory_write(3)
  show ?case by (elim resources_cong) simp_all
next
  case (step_memory_close fd fl s k)
  from step_memory_close(1) obtain xs ys where m: "fl_memory fl = xs @ fd # ys" "fd \<notin> set xs"
    by (meson split_list_first)
  then have "remove1 fd (fl_memory fl) = xs @ ys" by (simp add: remove1_append)
  moreover from step_memory_close(2) m have
    "holds F B (xs @ fd # (ys @ map thread_fd (sv_threads s))) (map to_remove (sv_threads s)) (fds k) (bps k) (refused k)"
    by (simp add: resources_inv_def)
  from holds_close [OF this] have
    "holds F B (xs @ ys @ map thread_fd (sv_threads s)) (map to_remove (sv_threads s)) (fds k - {fd}) (bps k) (refused k)" .
  ultimately show ?case
    by (simp add: resources_inv_def driver_drop_def fd_laws_close [OF env_lawsD(1) [OF assms]]
        bp_laws_close [OF env_lawsD(2) [OF assms]])
next
  case (step_poll ptr j s k s' k' fl)
  from poll_step_resources [OF assms step_poll(2,1)] show ?case .
next
  case (step_worker t fl s k ph s' k')
  from worker_step_keeps [OF env_lawsD(4) [OF assms] step_worker(1)] step_worker(2) show ?case
    by (elim resources_cong) simp_all
next
  case (step_world k k' s fl)
  then have "(fds k', bps k', refused k') = (fds k, bps k, refused k)"
    using env_lawsD(4) [OF assms] unfolding env_keeps_def by blast
  with step_world(2) show ?case by (elim resources_cong) simp_all
qed

subsection \<open>The end of a cancelled thread\<close>

text \<open>
  A bound on the steps a cancelled thread still takes: a poll brings at most 256 samples, every
  breakpoint is removed by a step of its own.
\<close>

fun steps_to_end :: "watcher \<Rightarrow> watch_phase \<Rightarrow> nat" where
  "steps_to_end w Between = length (wt_breakpoints w) + 2"
| "steps_to_end w (In_Round ids failed ds) = length (wt_breakpoints w) + 3 + length ds + 257 * length ids"
| "steps_to_end w (Removing ids) = length ids + 1"

lemma cancelled_step_decreases:
  assumes "kernel_sane K" and "watch_step K ptr w True ph c k = (out, Some (ph', c'), k')"
  shows "steps_to_end w ph' < steps_to_end w ph"
  using assms(2)
proof (cases "(K, ptr, w, True, ph, c, k)" rule: watch_step.cases)
  case (3 K' ptr' w' cancelled' bp ids failed c' k0)
  obtain r k1 where h: "driver_hits K ptr (wt_fd w) bp k = (r, k1)" by fastforce
  show ?thesis
  proof (cases r)
    case (Inl e)
    with 3 h assms(2) show ?thesis by auto
  next
    case (Inr hs)
    have "length (filter (wanted w \<circ> sample_of_hit) hs) < 257"
      using driver_hits_bound [OF assms(1) h [unfolded Inr]] by (intro le_less_trans [OF length_filter_le]) simp
    with 3 h assms(2) Inr show ?thesis by auto
  qed
qed (use assms(2) in \<open>auto simp: Let_def split: if_splits\<close>)

lemma cancelled_thread_gone:
  assumes "env_laws env fds bps refused" and "j < length (sv_threads s)" and "pt_cancel (sv_threads s ! j)"
  shows "\<exists>n s' k'. n \<le> steps_to_end (pt_watcher (sv_threads s ! j)) (pt_phase (sv_threads s ! j))
    \<and> (poll_step env ptr j ^^ n) (s, k) = (s', k')
    \<and> sv_threads s' = take j (sv_threads s) @ drop (Suc j) (sv_threads s)
    \<and> fds k' = fds k - {thread_fd (sv_threads s ! j)}
    \<and> removal_effect bps refused (to_remove (sv_threads s ! j)) k k'"
  using assms(2,3)
proof (induction "steps_to_end (pt_watcher (sv_threads s ! j)) (pt_phase (sv_threads s ! j))" arbitrary: s k rule: less_induct)
  case less
  let ?t = "sv_threads s ! j"
  let ?w = "pt_watcher ?t" and ?ts = "take j (sv_threads s) @ drop (Suc j) (sv_threads s)"
  obtain out st k1 where w: "watch_step (en_kernel env) ptr ?w True (pt_phase ?t) (pt_errors ?t) k = (out, st, k1)"
    by (metis prod_cases3)
  note eff = watch_step_effect [OF assms(1) w]
  obtain s1 k2 where p: "poll_step env ptr j (s, k) = (s1, k2)" by fastforce
  show ?case
  proof (cases st)
    case None
    have "sv_threads s1 = ?ts" "k2 = k1" using p less.prems w None by (auto simp: poll_step_def Let_def)
    moreover from eff None have "removal_effect bps refused (to_remove ?t) k k1"
      by (simp add: removal_effect_def)
    moreover from eff None have "fds k1 = fds k - {thread_fd ?t}" "1 \<le> steps_to_end ?w (pt_phase ?t)" by simp_all
    ultimately show ?thesis using p by (intro exI [of _ "1::nat"] exI [of _ s1] exI [of _ k2]) simp
  next
    case (Some q)
    obtain ph c where q: "q = (ph, c)" by fastforce
    have ts: "sv_threads s1 = (sv_threads s)[j := ?t\<lparr>pt_phase := ph, pt_errors := c\<rparr>]" and k2: "k2 = k1"
      using p less.prems w Some q by (auto simp: poll_step_def Let_def)
    have dec: "steps_to_end ?w ph < steps_to_end ?w (pt_phase ?t)"
      using cancelled_step_decreases [OF env_lawsD(3) [OF assms(1)] w [unfolded Some q]] .
    have "steps_to_end (pt_watcher (sv_threads s1 ! j)) (pt_phase (sv_threads s1 ! j)) < steps_to_end ?w (pt_phase ?t)"
      "j < length (sv_threads s1)" "pt_cancel (sv_threads s1 ! j)"
      using ts dec less.prems by simp_all
    from less.hyps [OF this, of k2] obtain n s' k' where n: "n \<le> steps_to_end ?w ph"
      "(poll_step env ptr j ^^ n) (s1, k2) = (s', k')" "sv_threads s' = ?ts"
      "fds k' = fds k1 - {thread_fd ?t}" "removal_effect bps refused (pending ?w ph) k1 k'"
      using ts k2 less.prems by auto
    have "removal_effect bps refused (to_remove ?t) k k'"
    proof -
      from eff Some q consider "pending ?w ph = to_remove ?t" "bps k1 = bps k" "refused k1 = refused k"
        | b where "to_remove ?t = [b] @ pending ?w ph" "removal_effect bps refused [b] k k1" by auto
      then show ?thesis
      proof cases
        case 1
        with n(5) show ?thesis by (simp add: removal_effect_def)
      next
        case (2 b)
        from removal_effect_append [OF 2(2) n(5)] show ?thesis unfolding 2(1) .
      qed
    qed
    moreover have "fds k1 = fds k" using eff Some q by simp
    moreover have "(poll_step env ptr j ^^ Suc n) (s, k) = (s', k')"
      using n(2) p by (simp add: funpow_swap1)
    ultimately show ?thesis using dec n
      by (intro exI [of _ "Suc n"] exI [of _ s'] exI [of _ k']) simp
  qed
qed

subsection \<open>Properties\<close>

text \<open>
  C4: after every step of every run, the driver descriptors the server holds are those it held at its
  start, one for each polling thread and those of the memory requests in flight, and the breakpoints
  installed are those installed at its start and those each polling thread has still to remove; nothing
  is held by two. Beyond these there are only breakpoints whose removal the driver has refused.
\<close>

theorem server_holds_exactly:
  assumes "env_laws env fds bps refused"
    and "(server_step env)\<^sup>*\<^sup>* (initial_server limit started, no_inflight, k0) (s, fl, k)"
  shows "let ds = fl_memory fl @ map (\<lambda>t. wt_fd (pt_watcher t)) (sv_threads s);
             owned = concat (map (\<lambda>t. case pt_phase t of Removing ids \<Rightarrow> ids | _ \<Rightarrow> wt_breakpoints (pt_watcher t)) (sv_threads s))
    in distinct ds \<and> fds k0 \<inter> set ds = {} \<and> fds k = fds k0 \<union> set ds
      \<and> distinct owned \<and> bps k0 \<inter> set owned = {} \<and> bps k0 \<union> set owned \<subseteq> bps k
      \<and> bps k \<subseteq> bps k0 \<union> set owned \<union> refused k"
proof -
  let ?I = "resources_inv fds bps refused (fds k0) (bps k0)"
  have "?I (initial_server limit started, no_inflight, k0)"
    by (simp add: resources_inv_def initial_server_def no_inflight_def holds_start)
  with assms(2) have "?I (s, fl, k)"
    by (induction rule: rtranclp_induct) (auto intro: server_step_resources [OF assms(1)])
  then show ?thesis unfolding resources_inv_def holds_def pending_def by (simp add: Let_def)
qed

lemma demo_env_laws:
  "env_laws demo_env (\<lambda>k. set (dk_fds k)) (\<lambda>k. set (dk_breakpoints k)) (\<lambda>k. set (dk_refused k))"
  using demo_fd_laws demo_bp_laws demo_sane
  by (simp add: env_laws_def env_keeps_def reads_keep_def quiet_def demo_env_def demo_tasks_def)

theorem server_holds_exactly_witness:
  "\<exists>s k. set (dk_fds k) = {4} \<and> set (dk_breakpoints k) = {7, 8}
    \<and> sv_breakpoints s \<noteq> [] \<and> (server_step demo_env)\<^sup>*\<^sup>* (initial_server 2 True, no_inflight, demo_start) (s, no_inflight, k)"
proof -
  have "(server_step demo_env)\<^sup>*\<^sup>* (initial_server 2 True, no_inflight, demo_start) (demo_sv1 Between, no_inflight, demo_k1)"
    using create_steps [OF _ _ demo_create, of no_inflight] by (simp add: demo_sv_def initial_server_def not_panic_def)
  moreover have "dk_refused demo_k1 = []" by (simp add: demo_k1_def demo_start_def)
  ultimately show ?thesis using server_holds_exactly [OF demo_env_laws, of 2 True demo_start "demo_sv1 Between" no_inflight demo_k1]
    by (intro exI [of _ "demo_sv1 Between"] exI [of _ demo_k1])
      (auto simp: demo_sv1_def demo_thread_def demo_watcher_def no_inflight_def demo_start_def Let_def)
qed

text \<open>
  C5: a deletion answered 204 takes effect: left to itself the polling thread of the breakpoint, wherever
  in a round or in its clean-up the deletion meets it, is gone after a bounded number of its own steps,
  one per sample in hand, at most 257 per breakpoint still to be polled and one per removal, and closes
  its driver. Of the breakpoints it had to remove only those are left whose removal the driver refused,
  and no other breakpoint is touched; the other threads go on as they were.
\<close>

theorem deleted_thread_ends:
  assumes "env_laws env fds bps refused" and "delete_breakpoint False i s = (r, s1)" and "status r = NO_CONTENT"
    and "j < length (sv_threads s)" and "t = sv_threads s ! j" and "pt_id t = i"
    and "owned = (case pt_phase t of Removing ids \<Rightarrow> ids | _ \<Rightarrow> wt_breakpoints (pt_watcher t))"
  shows "\<exists>n s2 k2. n \<le> steps_to_end (pt_watcher t) (pt_phase t) \<and> (poll_step env ptr j ^^ n) (s1, k) = (s2, k2)
    \<and> sv_threads s2 = take j (sv_threads s1) @ drop (Suc j) (sv_threads s1)
    \<and> fds k2 = fds k - {wt_fd (pt_watcher t)}
    \<and> bps k - set owned \<subseteq> bps k2 \<and> bps k2 \<subseteq> (bps k - set owned) \<union> refused k2
    \<and> refused k2 \<subseteq> refused k \<union> set owned \<and> bps k2 \<subseteq> bps k"
proof -
  have "sv_threads s1 = stop i (sv_threads s)"
    using assms(2,3) by (auto simp: delete_breakpoint_def status_defs split: lock_state.splits option.splits)
  then have "sv_threads s1 ! j = t\<lparr>pt_cancel := True\<rparr>" "j < length (sv_threads s1)"
    using assms(4-6) by (simp_all add: stop_def)
  moreover have "to_remove t = owned" using assms(7) by (simp add: pending_def)
  ultimately obtain n s2 k2 where "n \<le> steps_to_end (pt_watcher t) (pt_phase t)" "(poll_step env ptr j ^^ n) (s1, k) = (s2, k2)"
    "sv_threads s2 = take j (sv_threads s1) @ drop (Suc j) (sv_threads s1)" "fds k2 = fds k - {wt_fd (pt_watcher t)}"
    "removal_effect bps refused owned k k2"
    using cancelled_thread_gone [OF assms(1), of j s1 ptr k] by auto
  then show ?thesis unfolding removal_effect_def by blast
qed

theorem deleted_thread_ends_witness:
  "\<exists>n s k. n \<le> 4 \<and> (poll_step demo_env 0 0 ^^ n) (demo_cancelled, demo_k1) = (s, k) \<and> sv_threads s = []
    \<and> set (dk_fds k) = {} \<and> set (dk_breakpoints k) \<subseteq> set (dk_refused k)"
proof -
  obtain r where d: "delete_breakpoint False 1 (demo_sv1 Between) = (r, demo_cancelled)"
    by (metis demo_cancelled_def prod.collapse)
  then have st: "status r = NO_CONTENT"
    by (auto simp: delete_breakpoint_def try_lock_def demo_sv1_def demo_sv_def initial_server_def)
  have ts: "sv_threads demo_cancelled = [(demo_thread Between)\<lparr>pt_cancel := True\<rparr>]"
    by (simp add: demo_cancelled_def delete_breakpoint_def try_lock_def demo_sv1_def demo_sv_def
        initial_server_def stop_def demo_thread_def)
  have t: "0 < length (sv_threads (demo_sv1 Between))" "demo_thread Between = sv_threads (demo_sv1 Between) ! 0"
    "pt_id (demo_thread Between) = 1"
    "[7, 8] = (case pt_phase (demo_thread Between) of Removing ids \<Rightarrow> ids
      | _ \<Rightarrow> wt_breakpoints (pt_watcher (demo_thread Between)))"
    by (simp_all add: demo_sv1_def demo_thread_def demo_watcher_def)
  obtain n s2 k2 where n: "n \<le> steps_to_end (pt_watcher (demo_thread Between)) (pt_phase (demo_thread Between))"
    "(poll_step demo_env 0 0 ^^ n) (demo_cancelled, demo_k1) = (s2, k2)"
    "sv_threads s2 = take 0 (sv_threads demo_cancelled) @ drop (Suc 0) (sv_threads demo_cancelled)"
    and f: "set (dk_fds k2) = set (dk_fds demo_k1) - {wt_fd (pt_watcher (demo_thread Between))}"
    and b: "set (dk_breakpoints k2) \<subseteq> (set (dk_breakpoints demo_k1) - set [7, 8]) \<union> set (dk_refused k2)"
    using deleted_thread_ends [OF demo_env_laws d st t, of 0 demo_k1] by blast
  from n ts have "n \<le> 4" "sv_threads s2 = []" by (simp_all add: demo_thread_def demo_watcher_def)
  moreover have "set (dk_fds demo_k1) = {4}" "set (dk_breakpoints demo_k1) = {7, 8}"
    by (simp_all add: demo_k1_def insert_commute)
  with f b have "set (dk_fds k2) = {}" "set (dk_breakpoints k2) \<subseteq> set (dk_refused k2)"
    by (simp_all add: demo_thread_def demo_watcher_def)
  ultimately show ?thesis using n(2) by (intro exI [of _ n] exI [of _ s2] exI [of _ k2]) simp
qed

end
