(* ===== verification/Maps_Interleaving.thy ===== *)
theory Maps_Interleaving
  imports Proc_Maps
begin

section \<open>The maps cache under concurrent requests (src/maps.rs)\<close>

text \<open>
  The lock of the cache is not held while a maps file is read, so requests of several threads mix: one
  may find the cache stale, read the file, be overtaken, and store late. Here a request is its three
  parts, the definitions of which \<open>regions_with\<close> is composed, and the steps of all requests come in
  any order. The content of a file is a function of time; \<open>Instant::now\<close> is read before
  the request, possibly long before (one instant serves both lookups of \<open>resolve_many_addresses\<close>).
\<close>

subsection \<open>Requests and their steps\<close>

record cache_request =
  rq_now :: nat
  rq_pid :: u32
  rq_force :: bool

text \<open>
  A request in flight has missed the cache, and has read its file or not; an answer is kept with its
  request.
\<close>

record cache_system =
  cs_clock :: nat
  cs_cache :: maps_cache
  cs_flight :: "(cache_request \<times> parsed_region list option) list"
  cs_answers :: "(cache_request \<times> parsed_region list) list"

definition maps_at :: "(nat \<Rightarrow> str \<Rightarrow> str + str) \<Rightarrow> nat \<Rightarrow> u32 \<Rightarrow> maps_error + parsed_region list" where
  "maps_at content time pid = fst (read_maps (\<lambda>\<tau> path. (content \<tau> path, \<tau>)) pid time)"

inductive cache_step :: "(nat \<Rightarrow> str \<Rightarrow> str + str) \<Rightarrow> cache_system \<Rightarrow> cache_system \<Rightarrow> bool"
  for content :: "nat \<Rightarrow> str \<Rightarrow> str + str" where
  cache_tick: "cs_clock x \<le> \<tau> \<Longrightarrow> cache_step content x (x\<lparr>cs_clock := \<tau>\<rparr>)"
| cache_hit: "rq_now r \<le> cs_clock x \<Longrightarrow>
     regions_check (cs_cache x) (rq_now r) (rq_pid r) (rq_force r) = Inr (Some rs) \<Longrightarrow>
     cache_step content x (x\<lparr>cs_answers := (r, rs) # cs_answers x\<rparr>)"
| cache_miss: "rq_now r \<le> cs_clock x \<Longrightarrow>
     regions_check (cs_cache x) (rq_now r) (rq_pid r) (rq_force r) = Inr None \<Longrightarrow>
     cache_step content x (x\<lparr>cs_flight := (r, None) # cs_flight x\<rparr>)"
| cache_read: "(r, None) \<in> set (cs_flight x) \<Longrightarrow> maps_at content (cs_clock x) (rq_pid r) = Inr rs \<Longrightarrow>
     cache_step content x (x\<lparr>cs_flight := (r, Some rs) # remove1 (r, None) (cs_flight x)\<rparr>)"
| cache_unreadable: "(r, None) \<in> set (cs_flight x) \<Longrightarrow> maps_at content (cs_clock x) (rq_pid r) = Inl e \<Longrightarrow>
     cache_step content x (x\<lparr>cs_flight := remove1 (r, None) (cs_flight x)\<rparr>)"
| cache_store: "(r, Some rs) \<in> set (cs_flight x) \<Longrightarrow>
     regions_store (cs_cache x) (rq_now r) (rq_pid r) (rq_force r) rs = (Inr rs', c) \<Longrightarrow>
     cache_step content x (x\<lparr>cs_cache := c, cs_flight := remove1 (r, Some rs) (cs_flight x),
       cs_answers := (r, rs') # cs_answers x\<rparr>)"

inductive_cases cache_stepE: "cache_step content x y"

definition cache_start :: "cache_system \<Rightarrow> bool" where
  "cache_start x \<longleftrightarrow> (\<exists>\<tau>. x = \<lparr>cs_clock = \<tau>, cs_cache = empty_cache, cs_flight = [], cs_answers = []\<rparr>)"

subsection \<open>The invariant\<close>

text \<open>
  \<open>read_since\<close>: the regions are the content of the process's file at a time that is not before
  \<open>since\<close> and has come. An entry was read no earlier than its \<open>loaded_at\<close>; an answer no earlier than
  a second before its request, or no earlier than the request if that was forced.
\<close>

definition read_since ::
  "(nat \<Rightarrow> str \<Rightarrow> str + str) \<Rightarrow> nat \<Rightarrow> nat \<Rightarrow> u32 \<Rightarrow> parsed_region list \<Rightarrow> bool" where
  "read_since content clock since pid rs \<longleftrightarrow> (\<exists>\<tau>. since \<le> \<tau> \<and> \<tau> \<le> clock \<and> maps_at content \<tau> pid = Inr rs)"

definition oldest_read :: "cache_request \<Rightarrow> nat" where
  "oldest_read r = (if rq_force r then rq_now r else Suc (rq_now r) - 1000000000)"

definition entries_read :: "(nat \<Rightarrow> str \<Rightarrow> str + str) \<Rightarrow> nat \<Rightarrow> maps_cache \<Rightarrow> bool" where
  "entries_read content clock c \<longleftrightarrow>
     (\<forall>pid e. mc_entries c pid = Some e \<longrightarrow> read_since content clock (loaded_at e) pid (regions e))"

definition flight_read ::
  "(nat \<Rightarrow> str \<Rightarrow> str + str) \<Rightarrow> nat \<Rightarrow> cache_request \<times> parsed_region list option \<Rightarrow> bool" where
  "flight_read content clock p \<longleftrightarrow> rq_now (fst p) \<le> clock \<and>
     (case snd p of None \<Rightarrow> True | Some rs \<Rightarrow> read_since content clock (rq_now (fst p)) (rq_pid (fst p)) rs)"

definition cache_inv :: "(nat \<Rightarrow> str \<Rightarrow> str + str) \<Rightarrow> cache_system \<Rightarrow> bool" where
  "cache_inv content x \<longleftrightarrow> \<not> mc_poisoned (cs_cache x) \<and> entries_read content (cs_clock x) (cs_cache x)
     \<and> list_all (flight_read content (cs_clock x)) (cs_flight x)
     \<and> list_all (\<lambda>(r, rs). read_since content (cs_clock x) (oldest_read r) (rq_pid r) rs) (cs_answers x)"

lemma read_since_mono:
  "read_since content clock since pid rs \<Longrightarrow> clock \<le> clock' \<Longrightarrow> since' \<le> since \<Longrightarrow> read_since content clock' since' pid rs"
  unfolding read_since_def by (meson le_trans)

lemma list_all_remove1: "list_all P xs \<Longrightarrow> list_all P (remove1 x xs)"
  by (simp add: list_all_iff) (meson notin_set_remove1)

lemma fresh_entry_read:
  assumes "entries_read content clock c" and "\<not> is_stale (rq_now r) (mc_entries c (rq_pid r))" and "\<not> rq_force r"
  shows "read_since content clock (oldest_read r) (rq_pid r) (cached_regions c (rq_pid r))"
proof -
  obtain e where e: "mc_entries c (rq_pid r) = Some e" and "rq_now r - loaded_at e < 1000000000"
    using assms(2) by (auto simp: is_stale_def split: option.splits)
  then have "oldest_read r \<le> loaded_at e" using assms(3) by (simp add: oldest_read_def)
  then show ?thesis using assms(1) e
    by (auto simp: entries_read_def cached_regions_def intro: read_since_mono)
qed

lemma hit_read:
  assumes "entries_read content clock c" and "regions_check c (rq_now r) (rq_pid r) (rq_force r) = Inr (Some rs)"
  shows "read_since content clock (oldest_read r) (rq_pid r) rs"
  using assms fresh_entry_read [OF assms(1), of r] by (auto simp: regions_check_def split: if_splits)

lemma oldest_read_le: "oldest_read r \<le> rq_now r"
  by (simp add: oldest_read_def)

lemma store_read:
  assumes "entries_read content clock c" and "flight_read content clock (r, Some rs)"
    and "regions_store c (rq_now r) (rq_pid r) (rq_force r) rs = (Inr rs', c')"
  shows "entries_read content clock c' \<and> read_since content clock (oldest_read r) (rq_pid r) rs'"
proof (cases "rq_force r \<or> is_stale (rq_now r) (mc_entries c (rq_pid r))")
  case True
  have "read_since content clock (rq_now r) (rq_pid r) rs" using assms(2) by (simp add: flight_read_def)
  with read_since_mono [OF this order_refl oldest_read_le] True assms(1,3) show ?thesis
    by (auto simp: regions_store_def entries_read_def cached_regions_def split: if_splits)
next
  case False
  then have "c' = c" "rs' = cached_regions c (rq_pid r)"
    using assms(3) by (auto simp: regions_store_def split: if_splits)
  with fresh_entry_read [OF assms(1), of r] False assms(1) show ?thesis by simp
qed

lemma store_unpoisoned: "regions_store c now pid f rs = (Inr rs', c') \<Longrightarrow> \<not> mc_poisoned c'"
  by (auto simp: regions_store_def Let_def split: if_splits)

lemma cache_step_inv: "cache_step content x y \<Longrightarrow> cache_inv content x \<Longrightarrow> cache_inv content y"
proof (induction rule: cache_step.induct)
  case (cache_tick x \<tau>)
  note later = read_since_mono [OF _ cache_tick(1) order_refl]
  have "flight_read content \<tau> p" if "flight_read content (cs_clock x) p" for p
    using that cache_tick(1) later by (auto simp: flight_read_def split: option.splits)
  with cache_tick(2) later show ?case
    by (auto simp: cache_inv_def entries_read_def list_all_iff)
next
  case (cache_hit r x rs)
  then show ?case using hit_read [OF _ cache_hit(2)] by (simp add: cache_inv_def)
next
  case (cache_miss r x)
  then show ?case by (simp add: cache_inv_def flight_read_def)
next
  case (cache_read r x rs)
  then have "flight_read content (cs_clock x) (r, None)" by (auto simp: cache_inv_def list_all_iff)
  with cache_read show ?case
    by (auto simp: cache_inv_def list_all_remove1 flight_read_def read_since_def)
next
  case (cache_unreadable r x e)
  then show ?case by (simp add: cache_inv_def list_all_remove1)
next
  case (cache_store r rs x rs' c)
  then have "flight_read content (cs_clock x) (r, Some rs)" by (auto simp: cache_inv_def list_all_iff)
  with cache_store store_read [OF _ _ cache_store(2)] store_unpoisoned [OF cache_store(2)] show ?case
    by (simp add: cache_inv_def list_all_remove1)
qed

lemma cache_inv_start: "cache_start x \<Longrightarrow> cache_inv content x"
  by (auto simp: cache_start_def cache_inv_def empty_cache_def entries_read_def)

interpretation cache: invariant_system cache_start "cache_step content" "cache_inv content"
  for content :: "nat \<Rightarrow> str \<Rightarrow> str + str"
  by unfold_locales (rule cache_inv_start, assumption, rule cache_step_inv)

subsection \<open>A request with nothing in between\<close>

lemma alone_hit:
  assumes "rq_now r \<le> cs_clock x" and "regions_check (cs_cache x) (rq_now r) (rq_pid r) (rq_force r) = Inr (Some rs)"
  shows "(cache_step content)\<^sup>*\<^sup>* x (x\<lparr>cs_answers := (r, rs) # cs_answers x\<rparr>)"
  using cache_hit [OF assms] by blast

text \<open>\<open>regions_with\<close> is what a request comes to whose steps follow each other at one time.\<close>

lemma regions_with_run:
  assumes "rq_now r \<le> cs_clock x"
    and "regions_with (\<lambda>\<tau> path. (content \<tau> path, \<tau>)) (rq_now r) (rq_pid r) (rq_force r) (cs_cache x) (cs_clock x) = (Inr rs, c, w)"
  shows "(cache_step content)\<^sup>*\<^sup>* x (x\<lparr>cs_cache := c, cs_answers := (r, rs) # cs_answers x\<rparr>)"
proof (cases "regions_check (cs_cache x) (rq_now r) (rq_pid r) (rq_force r)")
  case (Inr q)
  show ?thesis
  proof (cases q)
    case (Some rs0)
    with Inr assms(2) have "rs0 = rs" "c = cs_cache x" by (simp_all add: regions_with_def)
    with alone_hit [OF assms(1), of rs content] Inr Some show ?thesis by simp
  next
    case None
    obtain m where m: "read_maps (\<lambda>\<tau> path. (content \<tau> path, \<tau>)) (rq_pid r) (cs_clock x) = (m, cs_clock x)"
      by (cases "content (cs_clock x) (maps_path (rq_pid r))") (auto simp: read_maps_def)
    with None Inr assms(2) obtain rs0 where rs0: "m = Inr rs0" by (cases m) (auto simp: regions_with_def)
    with None Inr m assms(2) have st: "regions_store (cs_cache x) (rq_now r) (rq_pid r) (rq_force r) rs0 = (Inr rs, c)"
      by (auto simp: regions_with_def split: prod.splits)
    let ?x1 = "x\<lparr>cs_flight := (r, None) # cs_flight x\<rparr>" and ?x2 = "x\<lparr>cs_flight := (r, Some rs0) # cs_flight x\<rparr>"
    have "cache_step content x ?x1" using assms(1) Inr None by (simp add: cache_miss)
    moreover have "cache_step content ?x1 ?x2"
      using cache_read [of r ?x1 content rs0] m rs0 by (simp add: maps_at_def)
    moreover have "cache_step content ?x2 (x\<lparr>cs_cache := c, cs_answers := (r, rs) # cs_answers x\<rparr>)"
      using cache_store [of r rs0 ?x2 rs c content] st by simp
    ultimately show ?thesis by (meson r_into_rtranclp rtranclp.rtrancl_into_rtrancl)
  qed
qed (use assms(2) in \<open>simp add: regions_with_def\<close>)

subsection \<open>Properties\<close>

text \<open>
  C30: however requests overtake each other, an answer is never older than a second: what a request
  gets is the content its process's maps file had at a time less than a second before the request's
  instant or later, and never before the instant if the request was forced to read anew.
\<close>

theorem answers_fresh:
  assumes "cache_start x0" and "(cache_step content)\<^sup>*\<^sup>* x0 x" and "(r, rs) \<in> set (cs_answers x)"
  shows "\<exists>\<tau>. maps_at content \<tau> (rq_pid r) = Inr rs \<and> \<tau> \<le> cs_clock x
    \<and> rq_now r < \<tau> + 1000000000 \<and> (rq_force r \<longrightarrow> rq_now r \<le> \<tau>)"
proof -
  have "read_since content (cs_clock x) (oldest_read r) (rq_pid r) rs"
    using cache.inv_reachable [OF assms(1,2)] assms(3) by (auto simp: cache_inv_def list_all_iff)
  then show ?thesis by (force simp: read_since_def oldest_read_def split: if_splits)
qed

text \<open>A file that changes at time 5, and a request of time 0 that is overtaken by one of time 5.\<close>

definition demo_content :: "nat \<Rightarrow> str \<Rightarrow> str + str" where
  "demo_content \<tau> path = (if \<tau> < 5 then Inr demo_line else Inr [])"

definition demo_request :: "nat \<Rightarrow> cache_request" where
  "demo_request now = \<lparr>rq_now = now, rq_pid = 7, rq_force = True\<rparr>"

definition demo_cache :: "cache_request list \<Rightarrow> cache_system" where
  "demo_cache rs = \<lparr>cs_clock = 5,
     cs_cache = \<lparr>mc_entries = (case rs of [] \<Rightarrow> Map.empty | r # _ \<Rightarrow> [7 \<mapsto> \<lparr>loaded_at = rq_now r,
        regions = (if rq_now r < 5 then parse_maps demo_line else parse_maps [])\<rparr>]), mc_poisoned = False\<rparr>,
     cs_flight = [], cs_answers = map (\<lambda>r. (r, if rq_now r < 5 then parse_maps demo_line else parse_maps [])) rs\<rparr>"

lemma demo_overtaken:
  "\<exists>x0. cache_start x0 \<and> (cache_step demo_content)\<^sup>*\<^sup>* x0 (demo_cache [demo_request 0, demo_request 5])"
proof -
  let ?l = "parse_maps demo_line" and ?n = "parse_maps []"
  let ?x0 = "\<lparr>cs_clock = 0, cs_cache = empty_cache, cs_flight = [], cs_answers = []\<rparr>"
  let ?x1 = "?x0\<lparr>cs_flight := [(demo_request 0, None)]\<rparr>"
  let ?x2 = "?x0\<lparr>cs_flight := [(demo_request 0, Some ?l)]\<rparr>"
  let ?x3 = "?x2\<lparr>cs_clock := 5\<rparr>"
  let ?x4 = "?x3\<lparr>cs_cache := cs_cache (demo_cache [demo_request 5]), cs_answers := [(demo_request 5, ?n)]\<rparr>"
  have at: "maps_at demo_content \<tau> p = Inr (if \<tau> < 5 then ?l else ?n)" for \<tau> p
    by (simp add: maps_at_def read_maps_def demo_content_def)
  have "cache_step demo_content ?x0 ?x1"
    using cache_miss [of "demo_request 0" ?x0] by (simp add: demo_request_def regions_check_def empty_cache_def)
  moreover have "cache_step demo_content ?x1 ?x2"
    using cache_read [of "demo_request 0" ?x1 demo_content ?l] at by simp
  moreover have "cache_step demo_content ?x2 ?x3" using cache_tick [of ?x2 5] by simp
  moreover have "(cache_step demo_content)\<^sup>*\<^sup>* ?x3 ?x4"
    using regions_with_run [of "demo_request 5" ?x3 demo_content ?n "cs_cache (demo_cache [demo_request 5])" 5]
    by (simp add: demo_request_def regions_with_read demo_content_def demo_cache_def empty_cache_def)
  moreover have "cache_step demo_content ?x4 (demo_cache [demo_request 0, demo_request 5])"
    using cache_store [of "demo_request 0" ?l ?x4 ?l "cs_cache (demo_cache [demo_request 0])" demo_content]
    by (simp add: demo_request_def demo_cache_def regions_store_def cached_regions_def)
  ultimately have "(cache_step demo_content)\<^sup>*\<^sup>* ?x0 (demo_cache [demo_request 0, demo_request 5])"
    by (meson converse_rtranclp_into_rtranclp rtranclp.rtrancl_into_rtrancl rtranclp_trans)
  moreover have "cache_start ?x0" by (simp add: cache_start_def)
  ultimately show ?thesis by blast
qed

theorem answers_fresh_witness:
  "\<exists>\<tau>. maps_at demo_content \<tau> 7 = Inr (parse_maps demo_line) \<and> \<tau> \<le> 5"
proof -
  obtain x0 where "cache_start x0" "(cache_step demo_content)\<^sup>*\<^sup>* x0 (demo_cache [demo_request 0, demo_request 5])"
    using demo_overtaken by blast
  from answers_fresh [OF this, of "demo_request 0" "parse_maps demo_line"] show ?thesis
    by (auto simp: demo_cache_def demo_request_def)
qed

text \<open>
  The bound does not carry over to the entry's order: a forced request that is overtaken stores its
  older regions over the newer ones, with its own, older instant, so they are not used for longer.
\<close>

lemma late_refresh_overwrites:
  "\<not> mc_poisoned c \<Longrightarrow> regions_store c now pid True rs =
     (Inr rs, c\<lparr>mc_entries := (mc_entries c)(pid \<mapsto> \<lparr>loaded_at = now, regions = rs\<rparr>)\<rparr>)"
  by (simp add: regions_store_def cached_regions_def)

end
