(* ===== verification/Cli.thy ===== *)
theory Cli
  imports Server_Resources
begin

section \<open>The command line (src/main.rs)\<close>

text \<open>
  The choice between the server and a watch, the run of a watch from its command line to the end of
  the process, step by step, and the printing of a sample. Parsing of the raw arguments is the \<open>clap\<close> crate's; its result is the
  record \<open>args\<close>. Colours are the \<open>colored\<close> crate's, whose escapes depend on the terminal: a style
  is a parameter.
\<close>

subsection \<open>Commands\<close>

record watch_command =
  wm_buf_size :: usize
  wm_thread :: bool
  wm_backtrace :: bool
  wm_timeout :: u64
  wm_filter :: "str option"
  wm_pid :: u32
  wm_type :: str
  wm_addr :: str

record serve_command =
  sm_listen :: str
  sm_hit_buffer :: usize

datatype command = Watch_Command watch_command | Serve_Command serve_command

record args =
  ag_command :: "command option"
  ag_buf_size :: usize
  ag_thread :: bool
  ag_backtrace :: bool
  ag_timeout :: u64
  ag_filter :: "str option"
  ag_pid :: "u32 option"
  ag_type :: "str option"
  ag_addr :: "str option"

datatype mode = Watch_Mode watch_command | Serve_Mode serve_command

definition missing :: "str \<Rightarrow> str" where
  "missing what = ''missing required argument: <'' @ what @ ''>''"

definition into_mode :: "args \<Rightarrow> str + mode" where
  "into_mode a =
     (case ag_command a of
        Some (Serve_Command c) \<Rightarrow> Inr (Serve_Mode c)
      | Some (Watch_Command c) \<Rightarrow> Inr (Watch_Mode c)
      | None \<Rightarrow>
          and_then (ok_or (missing ''PID'') (ag_pid a)) (\<lambda>pid.
          and_then (ok_or (missing ''TYPE'') (ag_type a)) (\<lambda>ty.
          and_then (ok_or (missing ''ADDR'') (ag_addr a)) (\<lambda>addr.
            Inr (Watch_Mode
              \<lparr>wm_buf_size = ag_buf_size a, wm_thread = ag_thread a, wm_backtrace = ag_backtrace a,
               wm_timeout = ag_timeout a, wm_filter = ag_filter a, wm_pid = pid, wm_type = ty,
               wm_addr = addr\<rparr>)))))"

subsection \<open>Printing a sample\<close>

record styles =
  st_label :: "str \<Rightarrow> str"
  st_register :: "str \<Rightarrow> str"

definition newline :: str where
  "newline = [CHR 0x0A]"

text \<open>The loop over the registers: a line is broken after every fourth.\<close>

fun print_regs :: "styles \<Rightarrow> arch \<Rightarrow> nat \<Rightarrow> u64 list \<Rightarrow> str" where
  "print_regs st a i [] = []"
| "print_regs st a i (r # rs) =
     st_register st (id_to_str a i) @ '': '' @ hex16 r @ '' '' @ (if (i + 1) mod 4 = 0 then newline else [])
     @ print_regs st a (Suc i) rs"

definition handle_event :: "styles \<Rightarrow> arch \<Rightarrow> sample_data \<Rightarrow> str" where
  "handle_event st a data =
     ''-------'' @ newline
     @ st_label st ''pid'' @ '': '' @ show_nat (unat (sd_pid data)) @ '' '' @ st_label st ''tid'' @ '': ''
     @ show_nat (unat (sd_tid data)) @ newline
     @ print_regs st a 0 (sd_regs data)
     @ (if length (sd_regs data) mod 4 \<noteq> 0 then newline else [])
     @ (case sd_backtrace data of
          None \<Rightarrow> []
        | Some frames \<Rightarrow>
            st_label st ''backtrace'' @ '':'' @ newline
            @ concat (map (\<lambda>addr. ''  '' @ hex16 addr @ newline) frames))"

subsection \<open>Running a watch\<close>

datatype cli_error =
    Cli_Type str
  | Cli_Addr str
  | Cli_Filter filter_error
  | Cli_Watch watch_error

fun cli_error_text :: "cli_error \<Rightarrow> str" where
  "cli_error_text (Cli_Type t) = ''invalid watchpoint type: '' @ t"
| "cli_error_text (Cli_Addr a) = ''invalid address: '' @ a"
| "cli_error_text (Cli_Filter e) = filter_error_text e"
| "cli_error_text (Cli_Watch e) = watch_error_text e"

definition run_config :: "watch_command \<Rightarrow> u32 \<times> u32 \<Rightarrow> u64 \<Rightarrow> reg_filter option \<Rightarrow> watch_config" where
  "run_config c ty_len addr flt =
     \<lparr>wc_pid = wm_pid c, wc_thread = wm_thread c, wc_type_name = wm_type c, wc_addr_text = wm_addr c,
      wc_ty = fst ty_len, wc_addr = addr, wc_len = ucast (snd ty_len), wc_backtrace = wm_backtrace c,
      wc_buf_size = wm_buf_size c, wc_filter = flt\<rparr>"

definition command_config :: "sys_bindings \<Rightarrow> arch \<Rightarrow> watch_command \<Rightarrow> cli_error + watch_config" where
  "command_config sys a c =
     and_then (ok_or (Cli_Type (wm_type c)) (parse_watchpoint_type sys (wm_type c))) (\<lambda>ty_len.
     and_then (ok_or (Cli_Addr (wm_addr c)) (parse_addr (wm_addr c))) (\<lambda>addr.
     and_then (map_err Cli_Filter (parse_filter_option a (wm_filter c))) (\<lambda>flt.
       Inr (run_config c ty_len addr flt))))"

text \<open>
  A run whose watch has started. The main task waits for ever, or sleeps until a point of the clock
  (in milliseconds), sets the cancel flag and returns; the runtime then shuts down and waits for
  its blocking task, which joins the polling thread. Beside it the polling thread goes its steps and
  prints its samples.
\<close>

datatype main_phase = Pending_Forever | Asleep_Until nat | Shutting_Down | Exited

record run_state =
  rn_main :: main_phase
  rn_clock :: nat
  rn_cancel :: bool
  rn_thread :: "(watch_phase \<times> nat) option"
  rn_output :: str

definition run_start :: "u64 \<Rightarrow> nat \<Rightarrow> run_state" where
  "run_start timeout now =
     \<lparr>rn_main = (if timeout = 0 then Pending_Forever else Asleep_Until (now + 1000 * unat timeout)),
      rn_clock = now, rn_cancel = False, rn_thread = Some (Between, 0), rn_output = []\<rparr>"

definition run_poll :: "'k env \<Rightarrow> styles \<Rightarrow> u64 \<Rightarrow> watcher \<Rightarrow> run_state \<times> 'k \<Rightarrow> run_state \<times> 'k" where
  "run_poll env st ptr w rk =
     (case rk of (rn, k) \<Rightarrow>
        (case rn_thread rn of
           None \<Rightarrow> (rn, k)
         | Some (ph, c) \<Rightarrow>
             (case watch_step (en_kernel env) ptr w (rn_cancel rn) ph c k of
                (out, th, k') \<Rightarrow>
                  (rn\<lparr>rn_thread := th,
                      rn_output := rn_output rn @ concat (map (handle_event st (en_arch env)) out)\<rparr>, k'))))"

definition run_wake :: "run_state \<Rightarrow> run_state" where
  "run_wake rn =
     (case rn_main rn of
        Asleep_Until t \<Rightarrow> if t \<le> rn_clock rn then rn\<lparr>rn_main := Shutting_Down, rn_cancel := True\<rparr> else rn
      | _ \<Rightarrow> rn)"

definition run_exit :: "run_state \<Rightarrow> run_state" where
  "run_exit rn = (if rn_main rn = Shutting_Down \<and> rn_thread rn = None then rn\<lparr>rn_main := Exited\<rparr> else rn)"

inductive run_step :: "'k env \<Rightarrow> styles \<Rightarrow> watcher \<Rightarrow> run_state \<times> 'k \<Rightarrow> run_state \<times> 'k \<Rightarrow> bool"
  for env :: "'k env" and st :: styles and w :: watcher where
  run_polls: "run_step env st w (rn, k) (run_poll env st ptr w (rn, k))"
| run_wakes: "run_step env st w (rn, k) (run_wake rn, k)"
| run_exits: "run_step env st w (rn, k) (run_exit rn, k)"
| run_ticks: "en_world env k k' \<Longrightarrow> run_step env st w (rn, k) (rn\<lparr>rn_clock := Suc (rn_clock rn)\<rparr>, k')"

inductive_cases run_stepE: "run_step env st w x y"

text \<open>
  \<open>run_watch\<close> up to its wait: an error, a quiet return, or the watcher and the state the run starts in.
\<close>

definition run_watch ::
  "'k env \<Rightarrow> nat \<Rightarrow> watch_command \<Rightarrow> 'k \<Rightarrow> (cli_error + (watcher \<times> run_state) option) \<times> 'k" where
  "run_watch env now c k =
     (case command_config (en_sys env) (en_arch env) c of
        Inl e \<Rightarrow> (Inl e, k)
      | Inr config \<Rightarrow>
          (case start_watch (en_sys env) (en_kernel env) (en_tasks env) config k of
             (Inl e, k1) \<Rightarrow>
               if watch_error_text e = ''no valid perf map'' then (Inr None, k1)
               else (Inl (Cli_Watch e), k1)
           | (Inr (_, w), k1) \<Rightarrow> (Inr (Some (w, run_start (wm_timeout c) now)), k1)))"

text \<open>What \<open>main\<close> does: a watch, or a server with a listening address and a buffer size.\<close>

definition main ::
  "'k env \<Rightarrow> nat \<Rightarrow> args \<Rightarrow> 'k \<Rightarrow> (str + (watcher \<times> run_state) option + (str \<times> server)) \<times> 'k" where
  "main env now a k =
     (case into_mode a of
        Inl e \<Rightarrow> (Inl e, k)
      | Inr (Watch_Mode c) \<Rightarrow>
          (case run_watch env now c k of (r, k1) \<Rightarrow> (and_then (map_err cli_error_text r) (\<lambda>x. Inr (Inl x)), k1))
      | Inr (Serve_Mode c) \<Rightarrow> (Inr (Inr (sm_listen c, initial_server (unat (sm_hit_buffer c)) True)), k))"

subsection \<open>Registers are printed four to a line\<close>

definition reg_cell :: "styles \<Rightarrow> arch \<Rightarrow> nat \<times> u64 \<Rightarrow> str" where
  "reg_cell st a p = st_register st (id_to_str a (fst p)) @ '': '' @ hex16 (snd p) @ '' ''"

lemma print_regs_append:
  "print_regs st a i (xs @ ys) = print_regs st a i xs @ print_regs st a (i + length xs) ys"
  by (induction xs arbitrary: i) simp_all

lemma print_regs_short:
  "i mod 4 + length xs < 4 \<Longrightarrow> print_regs st a i xs = concat (map (reg_cell st a) (enumerate i xs))"
proof (induction xs arbitrary: i)
  case (Cons x xs)
  then have "(i + 1) mod 4 = Suc (i mod 4)" "(i + 1) mod 4 \<noteq> 0" by (auto simp: mod_Suc)
  with Cons show ?case by (simp add: reg_cell_def)
qed simp

lemma print_regs_row:
  assumes "i mod 4 = 0" and "length xs = 4"
  shows "print_regs st a i xs = concat (map (reg_cell st a) (enumerate i xs)) @ newline"
proof -
  obtain x y z w where "xs = [x, y, z, w]" using assms(2) by (auto simp: length_Suc_conv numeral_eq_Suc)
  moreover have "Suc i mod 4 = 1" "Suc (Suc i) mod 4 = 2" "Suc (Suc (Suc i)) mod 4 = 3" "Suc (Suc (Suc (Suc i))) mod 4 = 0"
    using assms(1) by (simp_all add: mod_Suc)
  ultimately show ?thesis by (simp add: reg_cell_def)
qed

lemma chunks_short: "xs \<noteq> [] \<Longrightarrow> length xs < n \<Longrightarrow> chunks n xs = [xs]"
  by (simp add: chunks_step)

lemma enumerate_Nil_iff [simp]: "enumerate i xs = [] \<longleftrightarrow> xs = []"
  by (cases xs) simp_all

lemma print_regs_rows:
  "i mod 4 = 0 \<Longrightarrow> print_regs st a i rs @ (if length rs mod 4 \<noteq> 0 then newline else []) =
     concat (map (\<lambda>row. concat (map (reg_cell st a) row) @ newline) (chunks 4 (enumerate i rs)))"
proof (induction rs arbitrary: i rule: length_induct)
  case (1 rs)
  show ?case
  proof (cases "length rs < 4")
    case True
    show ?thesis
    proof (cases "rs = []")
      case False
      then have "chunks 4 (enumerate i rs) = [enumerate i rs]"
        using True by (intro chunks_short) simp_all
      moreover have "length rs mod 4 \<noteq> 0" using True False by (cases rs) auto
      ultimately show ?thesis using print_regs_short [of i rs] True 1(2) by simp
    qed simp
  next
    case False
    let ?x = "take 4 rs" and ?y = "drop 4 rs"
    have "print_regs st a i rs = print_regs st a i ?x @ print_regs st a (i + 4) ?y"
      using print_regs_append [of st a i ?x ?y] False by (simp del: print_regs.simps)
    moreover have "print_regs st a i ?x = concat (map (reg_cell st a) (enumerate i ?x)) @ newline"
      using print_regs_row [of i ?x] 1(2) False by simp
    moreover have "length ?y mod 4 = length rs mod 4" using False by (simp add: le_mod_geq)
    moreover have "chunks 4 (enumerate i rs) = enumerate i ?x # chunks 4 (enumerate (i + 4) ?y)"
      using False chunks_step [of "enumerate i ?x @ enumerate (i + 4) ?y" 4] enumerate_append_eq [of i ?x ?y]
      by auto
    moreover have "print_regs st a (i + 4) ?y @ (if length ?y mod 4 \<noteq> 0 then newline else []) =
     concat (map (\<lambda>row. concat (map (reg_cell st a) row) @ newline) (chunks 4 (enumerate (i + 4) ?y)))"
      using 1(1) [rule_format, of ?y "i + 4"] 1(2) False by simp
    ultimately show ?thesis by simp
  qed
qed

text \<open>
  A printed sample is a header, its process and thread, its registers in rows of four (a shorter
  last row only if their number is no multiple of four, and no empty row), each named and in sixteen
  hexadecimal digits, then the frames of its backtrace, one to a line.
\<close>

lemma printed_in_rows:
  "handle_event st a data = ''-------'' @ newline
     @ st_label st ''pid'' @ '': '' @ show_nat (unat (sd_pid data)) @ '' '' @ st_label st ''tid'' @ '': ''
     @ show_nat (unat (sd_tid data)) @ newline
     @ concat (map (\<lambda>row. concat (map (reg_cell st a) row) @ newline) (chunks 4 (enumerate 0 (sd_regs data))))
     @ (case sd_backtrace data of
          None \<Rightarrow> []
        | Some frames \<Rightarrow> st_label st ''backtrace'' @ '':'' @ newline
            @ concat (map (\<lambda>addr. ''  '' @ hex16 addr @ newline) frames))"
  using print_regs_rows [of 0 st a "sd_regs data"]
  unfolding handle_event_def by (metis append.assoc mod_0)

subsection \<open>Commands\<close>

lemma into_mode_Inr_iff:
  "into_mode a = Inr (Watch_Mode c) \<longleftrightarrow>
     ag_command a = Some (Watch_Command c) \<or>
     ag_command a = None \<and> ag_pid a = Some (wm_pid c) \<and> ag_type a = Some (wm_type c) \<and> ag_addr a = Some (wm_addr c)
     \<and> c = \<lparr>wm_buf_size = ag_buf_size a, wm_thread = ag_thread a, wm_backtrace = ag_backtrace a,
           wm_timeout = ag_timeout a, wm_filter = ag_filter a, wm_pid = wm_pid c, wm_type = wm_type c,
           wm_addr = wm_addr c\<rparr>"
  by (cases c) (auto simp: into_mode_def and_then_Inr_iff ok_or_Inr_iff split: option.splits command.splits)

lemma command_config_Inr:
  assumes "command_config sys a c = Inr config"
  shows "\<exists>p addr flt. parse_watchpoint_type sys (wm_type c) = Some p \<and> parse_addr (wm_addr c) = Some addr
    \<and> parse_filter_option a (wm_filter c) = Inr flt \<and> config = run_config c p addr flt"
  using assms by (auto simp: command_config_def and_then_Inr_iff ok_or_Inr_iff map_err_Inr_iff)

text \<open>
  An invalid command touches nothing: if the type, the address or the filter does not parse, the
  run fails with that error, the first in this order, and the kernel is as it was; only a command
  that parses reaches the driver.
\<close>

lemma bad_command_untouched:
  assumes "parse_watchpoint_type (en_sys env) (wm_type c) = None \<or> parse_addr (wm_addr c) = None
    \<or> (\<exists>e. parse_filter_option (en_arch env) (wm_filter c) = Inl e)"
  shows "\<exists>e. run_watch env now c k = (Inl e, k) \<and>
    e = (if parse_watchpoint_type (en_sys env) (wm_type c) = None then Cli_Type (wm_type c)
         else if parse_addr (wm_addr c) = None then Cli_Addr (wm_addr c)
         else Cli_Filter (case parse_filter_option (en_arch env) (wm_filter c) of Inl e \<Rightarrow> e))"
  using assms by (auto simp: run_watch_def command_config_def and_then_def ok_or_def map_err_def split: option.splits sum.splits)

definition demo_command :: "str \<Rightarrow> watch_command" where
  "demo_command ty = \<lparr>wm_buf_size = 0, wm_thread = False, wm_backtrace = False, wm_timeout = 5, wm_filter = None,
     wm_pid = 7, wm_type = ty, wm_addr = hex16 16\<rparr>"

text \<open>No message of the driver or of the watch itself is the one \<open>run_watch\<close> treats apart.\<close>

lemma special_message:
  "watch_error_text e = ''no valid perf map'' \<Longrightarrow> e = WatchProcfs ''no valid perf map''"
proof (cases e)
  case (WatchDriver d)
  assume "watch_error_text e = ''no valid perf map''"
  with WatchDriver show ?thesis by (cases d) (simp_all add: bootstrap_context_def)
qed simp_all

lemma parse_addr_hex16 [simp]: "parse_addr (hex16 a) = Some a"
  by (simp add: parse_addr_def strip_prefix_def hex16_def)

subsection \<open>The run of a watch\<close>

lemma run_watch_started:
  assumes "run_watch env now c k = (Inr (Some (w, rn)), k1)"
  shows "\<exists>config ws. command_config (en_sys env) (en_arch env) c = Inr config
    \<and> start_watch (en_sys env) (en_kernel env) (en_tasks env) config k = (Inr (ws, w), k1)
    \<and> rn = run_start (wm_timeout c) now"
  using assms by (auto simp: run_watch_def split: sum.splits prod.splits if_splits)

text \<open>
  The invariant: what the main task waits for and has told the thread, and what the thread still
  holds in the kernel.
\<close>

definition main_inv :: "u64 \<Rightarrow> nat \<Rightarrow> run_state \<Rightarrow> bool" where
  "main_inv timeout now rn \<longleftrightarrow>
     (case rn_main rn of
        Pending_Forever \<Rightarrow> timeout = 0 \<and> \<not> rn_cancel rn
      | Asleep_Until t \<Rightarrow> timeout \<noteq> 0 \<and> t = now + 1000 * unat timeout \<and> \<not> rn_cancel rn
      | Shutting_Down \<Rightarrow> timeout \<noteq> 0 \<and> now + 1000 * unat timeout \<le> rn_clock rn \<and> rn_cancel rn
      | Exited \<Rightarrow> timeout \<noteq> 0 \<and> now + 1000 * unat timeout \<le> rn_clock rn \<and> rn_cancel rn \<and> rn_thread rn = None)"

definition thread_inv ::
  "('k \<Rightarrow> i32 set) \<Rightarrow> ('k \<Rightarrow> i32 set) \<Rightarrow> ('k \<Rightarrow> i32 set) \<Rightarrow> 'k \<Rightarrow> watcher \<Rightarrow> (watch_phase \<times> nat) option \<Rightarrow> 'k \<Rightarrow> bool" where
  "thread_inv fds bps refused k0 w th k \<longleftrightarrow> bps k \<subseteq> bps k0 \<union> set (wt_breakpoints w)
     \<and> (case th of
          Some (ph, c) \<Rightarrow> holds (fds k0) (bps k0) [wt_fd w] [pending w ph] (fds k) (bps k) (refused k)
        | None \<Rightarrow> holds (fds k0) (bps k0) [] [] (fds k) (bps k) (refused k))"

lemma thread_inv_cong:
  "fds k' = fds k \<Longrightarrow> bps k' = bps k \<Longrightarrow> refused k' = refused k \<Longrightarrow>
     thread_inv fds bps refused k0 w th k' \<longleftrightarrow> thread_inv fds bps refused k0 w th k"
  unfolding thread_inv_def by (simp cong: option.case_cong prod.case_cong)

definition run_inv ::
  "('k \<Rightarrow> i32 set) \<Rightarrow> ('k \<Rightarrow> i32 set) \<Rightarrow> ('k \<Rightarrow> i32 set) \<Rightarrow> 'k \<Rightarrow> u64 \<Rightarrow> nat \<Rightarrow> watcher \<Rightarrow> run_state \<times> 'k \<Rightarrow> bool" where
  "run_inv fds bps refused k0 timeout now w x \<longleftrightarrow>
     main_inv timeout now (fst x) \<and> thread_inv fds bps refused k0 w (rn_thread (fst x)) (snd x)"

lemma run_wake_keeps [simp]: "rn_thread (run_wake rn) = rn_thread rn"
  by (simp add: run_wake_def split: main_phase.split)

lemma run_exit_keeps [simp]: "rn_thread (run_exit rn) = rn_thread rn"
  by (simp add: run_exit_def)

lemma main_inv_wake: "main_inv timeout now rn \<Longrightarrow> main_inv timeout now (run_wake rn)"
  by (auto simp: run_wake_def main_inv_def split: main_phase.splits)

lemma main_inv_exit: "main_inv timeout now rn \<Longrightarrow> main_inv timeout now (run_exit rn)"
  by (auto simp: run_exit_def main_inv_def)

lemma main_inv_tick: "main_inv timeout now rn \<Longrightarrow> main_inv timeout now (rn\<lparr>rn_clock := Suc (rn_clock rn)\<rparr>)"
  by (auto simp: main_inv_def split: main_phase.splits)

lemma run_poll_inv:
  assumes "env_laws env fds bps refused" and "run_inv fds bps refused k0 timeout now w (rn, k)"
  shows "run_inv fds bps refused k0 timeout now w (run_poll env st ptr w (rn, k))"
proof (cases "rn_thread rn")
  case None
  with assms(2) show ?thesis by (simp add: run_poll_def)
next
  case (Some p)
  obtain ph c where p: "p = (ph, c)" by fastforce
  obtain out th k' where s: "watch_step (en_kernel env) ptr w (rn_cancel rn) ph c k = (out, th, k')" by (metis prod_cases3)
  let ?rn = "rn\<lparr>rn_thread := th, rn_output := rn_output rn @ concat (map (handle_event st (en_arch env)) out)\<rparr>"
  have r: "run_poll env st ptr w (rn, k) = (?rn, k')" using Some p s by (simp add: run_poll_def)
  from assms(2) Some p have inv: "main_inv timeout now rn" "bps k \<subseteq> bps k0 \<union> set (wt_breakpoints w)"
    "holds (fds k0) (bps k0) [wt_fd w] [pending w ph] (fds k) (bps k) (refused k)" by (simp_all add: run_inv_def thread_inv_def)
  have main: "main_inv timeout now ?rn" using inv(1) Some by (auto simp: main_inv_def split: main_phase.splits)
  note eff = watch_step_effect [OF assms(1) s]
  show ?thesis
  proof (cases th)
    case None
    with eff have e: "ph = Removing []" "fds k' = fds k - {wt_fd w}" "bps k' = bps k" "refused k' = refused k" by simp_all
    have "holds (fds k0) (bps k0) ([] @ [wt_fd w]) ([] @ [[]]) (fds k) (bps k) (refused k)" using inv(3) e(1) by simp
    from holds_done [OF holds_close [OF this]] have
      "holds (fds k0) (bps k0) [] [] (fds k - {wt_fd w}) (bps k) (refused k)" by simp
    with None e inv(2) main show ?thesis by (simp add: r run_inv_def thread_inv_def)
  next
    case (Some q)
    obtain ph' c' where q: "q = (ph', c')" by fastforce
    from eff Some q have f: "fds k' = fds k" by simp
    from eff Some q consider "pending w ph' = pending w ph" "bps k' = bps k" "refused k' = refused k"
      | b where "pending w ph = b # pending w ph'" "removal_effect bps refused [b] k k'" by auto
    then have "holds (fds k0) (bps k0) [wt_fd w] [pending w ph'] (fds k') (bps k') (refused k') \<and> bps k' \<subseteq> bps k"
    proof cases
      case 1
      with inv(3) f show ?thesis by simp
    next
      case (2 b)
      have "holds (fds k0) (bps k0) [wt_fd w] ([] @ (b # pending w ph') # []) (fds k) (bps k) (refused k)"
        using inv(3) 2(1) by simp
      from holds_remove [OF this 2(2)] 2(2) f show ?thesis by (simp add: removal_effect_def)
    qed
    with Some q inv(2) main show ?thesis by (auto simp: r run_inv_def thread_inv_def)
  qed
qed

lemma run_step_inv:
  assumes "env_laws env fds bps refused" and "run_step env st w x y"
    and "run_inv fds bps refused k0 timeout now w x"
  shows "run_inv fds bps refused k0 timeout now w y"
  using assms(2)
proof cases
  case (run_polls rn k ptr)
  with run_poll_inv [OF assms(1)] assms(3) show ?thesis by simp
next
  case (run_wakes rn k)
  with assms(3) main_inv_wake show ?thesis by (simp add: run_inv_def)
next
  case (run_exits rn k)
  with assms(3) main_inv_exit show ?thesis by (simp add: run_inv_def)
next
  case (run_ticks k k' rn)
  then have "(fds k', bps k', refused k') = (fds k, bps k, refused k)"
    using env_lawsD(4) [OF assms(1)] unfolding env_keeps_def by blast
  with run_ticks assms(3) main_inv_tick show ?thesis
    using thread_inv_cong [of fds k' k bps refused] by (simp add: run_inv_def)
qed

lemma run_watch_inv:
  assumes "env_laws env fds bps refused" and "run_watch env now c k0 = (Inr (Some (w, rn)), k1)"
    and "(run_step env st w)\<^sup>*\<^sup>* (rn, k1) x"
  shows "run_inv fds bps refused k0 (wm_timeout c) now w x"
proof -
  from run_watch_started [OF assms(2)] obtain config ws where
    sw: "start_watch (en_sys env) (en_kernel env) (en_tasks env) config k0 = (Inr (ws, w), k1)"
    and rn: "rn = run_start (wm_timeout c) now" by blast
  have "quiet (en_tasks env) (\<lambda>k. (fds k, bps k, refused k))"
    using env_lawsD(4) [OF assms(1)] by (simp add: env_keeps_def)
  from start_driver_watch_effect [OF env_lawsD(1-3) [OF assms(1)] this sw [unfolded start_watch_def]]
  have "run_inv fds bps refused k0 (wm_timeout c) now w (rn, k1)"
    by (auto simp: rn run_inv_def thread_inv_def main_inv_def run_start_def holds_def)
  with assms(3) show ?thesis by (induction rule: rtranclp_induct) (auto intro: run_step_inv [OF assms(1)])
qed

subsection \<open>Properties of a run\<close>

text \<open>
  C37: a watch from the command line runs for as long as it was told and cleans up. With a timeout of
  zero it never stops by itself; with another it cancels its polling thread no sooner than so many
  seconds after its start; and when the process has exited, the polling thread has ended, no driver
  descriptor is left, and of the breakpoints of the watch only those whose removal the driver refused.
\<close>

theorem run_watch_cleans_up:
  assumes "env_laws env fds bps refused" and "run_watch env now c k0 = (Inr (Some (w, rn)), k1)"
    and "(run_step env st w)\<^sup>*\<^sup>* (rn, k1) (rn', k)"
  shows "(wm_timeout c = 0 \<longrightarrow> rn_main rn' = Pending_Forever \<and> \<not> rn_cancel rn')
    \<and> (rn_cancel rn' \<longrightarrow> now + 1000 * unat (wm_timeout c) \<le> rn_clock rn')
    \<and> (rn_main rn' = Exited \<longrightarrow> rn_thread rn' = None \<and> fds k = fds k0
         \<and> bps k0 \<subseteq> bps k \<and> bps k \<subseteq> bps k0 \<union> (set (wt_breakpoints w) \<inter> refused k))"
proof -
  from run_watch_inv [OF assms] have inv: "main_inv (wm_timeout c) now rn'" "bps k \<subseteq> bps k0 \<union> set (wt_breakpoints w)"
    and none: "rn_thread rn' = None \<Longrightarrow> holds (fds k0) (bps k0) [] [] (fds k) (bps k) (refused k)"
    by (simp_all add: run_inv_def thread_inv_def)
  show ?thesis
    using inv none by (auto simp: main_inv_def holds_def split: main_phase.splits)
qed

lemma run_poll_ends:
  assumes "kernel_sane (en_kernel env)" and "rn_cancel rn"
  shows "\<exists>n rn' k'. n \<le> (case rn_thread rn of None \<Rightarrow> 0 | Some (ph, c) \<Rightarrow> steps_to_end w ph)
    \<and> (run_poll env st ptr w ^^ n) (rn, k) = (rn', k') \<and> rn_thread rn' = None \<and> rn_main rn' = rn_main rn"
  using assms(2)
proof (induction "case rn_thread rn of None \<Rightarrow> 0 | Some (ph, c) \<Rightarrow> steps_to_end w ph" arbitrary: rn k rule: less_induct)
  case less
  show ?case
  proof (cases "rn_thread rn")
    case None
    then show ?thesis by (intro exI [of _ "0::nat"]) simp
  next
    case (Some p)
    obtain ph c where p: "p = (ph, c)" by fastforce
    obtain out th k1 where s: "watch_step (en_kernel env) ptr w True ph c k = (out, th, k1)" by (metis prod_cases3)
    let ?rn = "rn\<lparr>rn_thread := th, rn_output := rn_output rn @ concat (map (handle_event st (en_arch env)) out)\<rparr>"
    have r: "run_poll env st ptr w (rn, k) = (?rn, k1)" using Some p s less.prems by (simp add: run_poll_def)
    have dec: "(case th of None \<Rightarrow> 0 | Some (ph', c') \<Rightarrow> steps_to_end w ph') < steps_to_end w ph"
    proof (cases th)
      case None
      then show ?thesis by (cases ph) simp_all
    next
      case (Some q)
      obtain ph' c' where "q = (ph', c')" by fastforce
      with Some cancelled_step_decreases [OF assms(1), of ptr w ph c k out ph' c' k1] s show ?thesis by simp
    qed
    then have "(case rn_thread ?rn of None \<Rightarrow> 0 | Some (ph, c) \<Rightarrow> steps_to_end w ph)
        < (case rn_thread rn of None \<Rightarrow> 0 | Some (ph, c) \<Rightarrow> steps_to_end w ph)" using Some p by simp
    from less.hyps [OF this, of k1] less.prems obtain n rn' k' where
      n: "n \<le> (case th of None \<Rightarrow> 0 | Some (ph, c) \<Rightarrow> steps_to_end w ph)"
        "(run_poll env st ptr w ^^ n) (?rn, k1) = (rn', k')" "rn_thread rn' = None" "rn_main rn' = rn_main rn" by auto
    have "(run_poll env st ptr w ^^ Suc n) (rn, k) = (rn', k')" using n(2) r by (simp add: funpow_swap1)
    moreover have "Suc n \<le> (case rn_thread rn of None \<Rightarrow> 0 | Some (ph, c) \<Rightarrow> steps_to_end w ph)"
      using n(1) dec Some p by simp
    ultimately show ?thesis using n(3,4) by blast
  qed
qed

text \<open>
  C38: a watch with a timeout does exit: whatever state the run has reached, once the clock has
  passed the timeout, waking the main task, a bounded number of steps of the polling thread (one per
  sample in hand, at most 257 per breakpoint still to be polled, one per removal) and the end of the
  runtime bring it to its exit.
\<close>

theorem run_watch_exits:
  assumes "env_laws env fds bps refused" and "run_watch env now c k0 = (Inr (Some (w, rn)), k1)"
    and "(run_step env st w)\<^sup>*\<^sup>* (rn, k1) (rn', k)"
    and "wm_timeout c \<noteq> 0" and "now + 1000 * unat (wm_timeout c) \<le> rn_clock rn'"
  shows "\<exists>n rn'' k'. n \<le> (case rn_thread rn' of None \<Rightarrow> 0 | Some (ph, _) \<Rightarrow> steps_to_end w ph)
    \<and> (run_poll env st ptr w ^^ n) (run_wake rn', k) = (rn'', k') \<and> rn_main (run_exit rn'') = Exited"
proof -
  have inv: "main_inv (wm_timeout c) now rn'" using run_watch_inv [OF assms(1-3)] by (simp add: run_inv_def)
  show ?thesis
  proof (cases "rn_main rn' = Exited")
    case True
    then have "run_wake rn' = rn'" "run_exit rn' = rn'" by (simp_all add: run_wake_def run_exit_def)
    with True show ?thesis by (intro exI [of _ "0::nat"] exI [of _ rn'] exI [of _ k]) simp
  next
    case False
    then have w: "rn_main (run_wake rn') = Shutting_Down" "rn_cancel (run_wake rn')" "rn_thread (run_wake rn') = rn_thread rn'"
      using inv assms(4,5) by (auto simp: main_inv_def run_wake_def split: main_phase.splits)
    from run_poll_ends [OF env_lawsD(3) [OF assms(1)] w(2), of w st ptr k] obtain n rn'' k' where
      "n \<le> (case rn_thread rn' of None \<Rightarrow> 0 | Some (ph, _) \<Rightarrow> steps_to_end w ph)"
      "(run_poll env st ptr w ^^ n) (run_wake rn', k) = (rn'', k')" "rn_thread rn'' = None" "rn_main rn'' = Shutting_Down"
      unfolding w(1,3) by blast
    then show ?thesis by (intro exI [of _ n] exI [of _ rn''] exI [of _ k']) (simp add: run_exit_def)
  qed
qed

subsection \<open>A run on the demonstration kernel\<close>

definition plain :: styles where
  "plain = \<lparr>st_label = \<lambda>s. s, st_register = \<lambda>s. s\<rparr>"

lemma demo_run_watch:
  "run_watch demo_env 0 (demo_command ''w4'') demo_start = (Inr (Some (demo_watcher, run_start 5 0)), demo_k1)"
proof -
  let ?config = "run_config (demo_command ''w4'') (2, 4) 16 None"
  have "parse_watchpoint_type linux ''w4'' = Some (2, 4)"
    by (simp add: parse_watchpoint_type_def strip_prefix_def parse_len_def linux_def)
  then have "command_config (en_sys demo_env) (en_arch demo_env) (demo_command ''w4'') = Inr ?config"
    by (simp add: command_config_def demo_command_def parse_filter_option_def)
  moreover have "start_watch (en_sys demo_env) (en_kernel demo_env) (en_tasks demo_env) ?config demo_start =
     (Inr (\<lparr>ws_threads = [7, 8]\<rparr>, demo_watcher), demo_k1)"
    by (simp add: start_watch_def start_driver_watch_def demo_open list_threads_def demo_tasks_def
        run_config_def demo_command_def List.map_filter_def driver_create_def driver_io_def Let_def
        demo_start_def demo_watcher_def demo_k1_def)
  ultimately show ?thesis by (simp add: run_watch_def demo_command_def)
qed

lemma demo_run_ticks:
  "(run_step demo_env plain demo_watcher)\<^sup>*\<^sup>* (run_start 5 0, demo_k1) ((run_start 5 0)\<lparr>rn_clock := n\<rparr>, demo_k1)"
proof (induction n)
  case (Suc n)
  have "run_step demo_env plain demo_watcher ((run_start 5 0)\<lparr>rn_clock := n\<rparr>, demo_k1) ((run_start 5 0)\<lparr>rn_clock := Suc n\<rparr>, demo_k1)"
    using run_ticks [of demo_env demo_k1 demo_k1 plain demo_watcher "(run_start 5 0)\<lparr>rn_clock := n\<rparr>"]
    by (simp add: demo_env_def)
  with Suc show ?case by (rule rtranclp.rtrancl_into_rtrancl)
qed (simp add: run_start_def)

lemma run_poll_steps: "(run_step env st w)\<^sup>*\<^sup>* x ((run_poll env st ptr w ^^ n) x)"
proof (induction n)
  case (Suc n)
  have "run_step env st w ((run_poll env st ptr w ^^ n) x) (run_poll env st ptr w ((run_poll env st ptr w ^^ n) x))"
    by (metis run_polls prod.collapse)
  with Suc show ?case by simp
qed simp

lemma demo_wake:
  "run_wake ((run_start 5 0)\<lparr>rn_clock := 5000\<rparr>) = (run_start 5 0)\<lparr>rn_clock := 5000, rn_main := Shutting_Down, rn_cancel := True\<rparr>"
  by (simp add: run_wake_def run_start_def)

theorem run_watch_exits_witness:
  "\<exists>n rn k. n \<le> 4 \<and> (run_poll demo_env plain 0 demo_watcher ^^ n)
      (run_wake ((run_start 5 0)\<lparr>rn_clock := 5000\<rparr>), demo_k1) = (rn, k) \<and> rn_main (run_exit rn) = Exited"
proof -
  have t: "wm_timeout (demo_command ''w4'') = 5" by (simp add: demo_command_def)
  have late: "wm_timeout (demo_command ''w4'') \<noteq> 0"
    "0 + 1000 * unat (wm_timeout (demo_command ''w4'')) \<le> rn_clock ((run_start 5 0)\<lparr>rn_clock := 5000\<rparr>)" unfolding t by simp_all
  have th: "rn_thread ((run_start 5 0)\<lparr>rn_clock := 5000\<rparr>) = Some (Between, 0)" by (simp add: run_start_def)
  have n: "steps_to_end demo_watcher Between = 4" by (simp add: demo_watcher_def)
  show ?thesis
    using run_watch_exits [OF demo_env_laws demo_run_watch demo_run_ticks late, of 0]
    unfolding th option.case prod.case n .
qed

theorem run_watch_cleans_up_witness:
  "\<exists>rn k. (run_step demo_env plain demo_watcher)\<^sup>*\<^sup>* (run_start 5 0, demo_k1) (rn, k) \<and> rn_main rn = Exited
    \<and> set (dk_fds k) = {} \<and> set (dk_breakpoints k) \<subseteq> {7, 8} \<inter> set (dk_refused k)"
proof -
  let ?rn = "(run_start 5 0)\<lparr>rn_clock := 5000\<rparr>"
  have "rn_cancel (run_wake ?rn)" unfolding demo_wake by simp
  from run_poll_ends [OF _ this, of demo_env demo_watcher plain 0 demo_k1] demo_sane obtain n rn k where
    p: "(run_poll demo_env plain 0 demo_watcher ^^ n) (run_wake ?rn, demo_k1) = (rn, k)"
    and rn: "rn_thread rn = None" "rn_main rn = rn_main (run_wake ?rn)" by auto
  have "(run_step demo_env plain demo_watcher)\<^sup>*\<^sup>* (run_start 5 0, demo_k1) (run_wake ?rn, demo_k1)"
    using demo_run_ticks [of 5000] run_wakes by (rule rtranclp.rtrancl_into_rtrancl)
  also have "(run_step demo_env plain demo_watcher)\<^sup>*\<^sup>* (run_wake ?rn, demo_k1) (rn, k)"
    using run_poll_steps [where env = demo_env and st = plain and w = demo_watcher and x = "(run_wake ?rn, demo_k1)"
        and ptr = 0 and n = n] unfolding p .
  also (rtranclp_trans) have "(run_step demo_env plain demo_watcher)\<^sup>*\<^sup>* (rn, k) (run_exit rn, k)"
    by (rule r_into_rtranclp) (rule run_exits)
  finally (rtranclp_trans) have run: "(run_step demo_env plain demo_watcher)\<^sup>*\<^sup>* (run_start 5 0, demo_k1) (run_exit rn, k)" .
  have e: "rn_main (run_exit rn) = Exited" using rn unfolding demo_wake by (simp add: run_exit_def)
  have d: "set (dk_fds demo_start) = {}" "set (dk_breakpoints demo_start) = {}" "set (wt_breakpoints demo_watcher) = {7, 8}"
    by (simp_all add: demo_start_def demo_watcher_def)
  from run_watch_cleans_up [OF demo_env_laws demo_run_watch run] e d
  have "set (dk_fds k) = {}" "set (dk_breakpoints k) \<subseteq> {7, 8} \<inter> set (dk_refused k)" by simp_all
  with run e show ?thesis by blast
qed

subsection \<open>Addresses on the command line and over HTTP\<close>

text \<open>
  Wherever the HTTP interface reads a plain number as an address, the command line reads the same
  address, but for the prefix \<open>0X\<close>, which the command line does not know.
\<close>

lemma addresses_agree:
  assumes "parse_numeric_addr s = Some a" and "strip_prefix ''0X'' s = None"
  shows "parse_addr s = Some a"
  using assms by (auto simp: parse_numeric_addr_def parse_addr_def split: if_splits option.splits)

end
