(* ===== verification/Spec2Isabelle.thy ===== *)
theory Spec2Isabelle
  imports Server_Refinement Server_Resources Maps_Interleaving Cli
begin

text \<open>
  A model of pwatch-http, a tool that watches memory accesses of a process by hardware breakpoints,
  from the command line or over an HTTP interface, and the theorems that make it correct. File names
  below are under \<open>src/src/\<close>.

  \<^bold>\<open>The program.\<close> \<open>main.rs\<close> chooses between a watch on the command
  line and the server. A watch (\<open>watch.rs\<close>) opens a kernel driver
  (\<open>lk1337.rs\<close>), installs one breakpoint per thread of the target and starts a thread
  that polls them, filters the samples (\<open>filter.rs\<close>) and hands them to a callback:
  printing on the command line, a bounded queue in the server. The server (\<open>server.rs\<close>)
  keeps a table of breakpoints and a bounded buffer of hits; a worker takes samples from the queue,
  names their addresses with the cached memory maps of the process (\<open>maps.rs\<close>) and
  numbers and renders them (\<open>hit.rs\<close>). Reading and writing the memory of a process
  (\<open>memory_api.rs\<close>) goes through the driver as well; whatever may block runs on at most
  eight workers (\<open>blocking.rs\<close>). \<open>perf.rs\<close> is an older source of the same
  samples, the ring buffer of perf events, whose sample type is still the one everything uses.

  \<^bold>\<open>Theories.\<close> In the order of their imports:
  \<^item> \<open>Prelude\<close>: machine integers as words, \<open>Result\<close> as a sum, shared
    lemmas, and the locales \<open>codec\<close> (what is printed is read back),
    \<open>invariant_system\<close> (an invariant of a step relation) and \<open>refinement\<close>
    (an invariant system seen through an abstraction).
  \<^item> \<open>Rust_Str\<close>, \<open>Rust_Int\<close>, \<open>Bytes\<close>,
    \<open>Http\<close>: the operations of Rust's standard library the program calls on UTF-8
    strings, paths, digits and little-endian byte images, and a response.
  \<^item> \<open>Sys_Bindings\<close>: constants of other crates, as a parameter.
    \<open>Arch\<close>: \<open>arch/*.rs\<close>, both targets.
  \<^item> \<open>Perf_Ring\<close>: \<open>perf.rs\<close>. \<open>perf_new\<close>,
    \<open>perf_drop\<close>; \<open>read_array\<close> up to \<open>read_sample\<close>;
    \<open>process_batch\<close> and \<open>drain_ready\<close>, one readiness of the descriptor;
    \<open>drain_rounds\<close>, the event loop with the readiness it keeps.
  \<^item> \<open>Reg_Filter\<close>: \<open>filter.rs\<close>, with the grammar
    \<open>filter_lang\<close> the parser is compared with. The locale \<open>separated\<close>
    treats both loops of the parser, \<open>or_loop\<close> and \<open>and_loop\<close>, at once.
  \<^item> \<open>Proc_Maps\<close>: \<open>maps.rs\<close>. \<open>regions_with\<close> is composed
    of its two critical sections, \<open>regions_check\<close> and \<open>regions_store\<close>. The
    locale \<open>maps_source\<close> holds the laws of a reader of maps files.
    \<open>Maps_Interleaving\<close>: the same sections and the read between them, by many threads
    at once.
  \<^item> \<open>Lk_Driver\<close>: \<open>lk1337.rs\<close>, every request and the C layout of its
    structures. \<open>Demo_Kernel\<close>: a kernel that satisfies the laws assumed of one, on
    which the theorems are applied.
  \<^item> \<open>Watch_Loop\<close>: \<open>watch.rs\<close>, the start of a watch and its thread,
    by rounds (\<open>watch_loop\<close>) and by steps (\<open>watch_step\<close>).
  \<^item> \<open>Worker_Slots\<close>: \<open>blocking.rs\<close>, the permits as a step relation
    and the outcome of one call.
  \<^item> \<open>Memory_Api\<close>: \<open>memory_api.rs\<close>. \<open>Hit_Factory\<close>:
    \<open>hit.rs\<close>. \<open>Process_List\<close>: \<open>read_processes\<close> of
    \<open>server.rs\<close>.
  \<^item> \<open>Http_Server\<close>: the rest of \<open>server.rs\<close>: the record
    \<open>server\<close> is \<open>InnerState\<close>, with the polling threads it has started; one
    definition per handler, \<open>worker_step\<close> and \<open>poll_step\<close> for the threads.
  \<^item> \<open>Server_Safety\<close>: all of it in any order, as the relation
    \<open>server_step\<close>, and its invariant. \<open>Server_Properties\<close>: the answers of
    the handlers in the reachable states. \<open>Server_Refinement\<close>: the abstract
    \<open>service\<close> and the proof that the server refines it.
    \<open>Server_Resources\<close>: what the server holds in the kernel.
  \<^item> \<open>Cli\<close>: \<open>main.rs\<close>: the choice of the mode, a watch from its command
  line to the
    exit of the process (\<open>run_watch\<close>, \<open>run_step\<close>), the printing of a sample.
\<close>

text \<open>
  \<^bold>\<open>What is shown.\<close>
  \<^item> Server: every step of every interleaving is a step of the abstract service or none of its
    business; accepted samples become hits, one each and in order; the answers of the routes say
    what is in the state; the event stream is in order; a deleted number never comes back; every
    descriptor of the
    driver belongs to one polling thread or one memory request and every installed breakpoint to one
    polling thread, unless its removal was refused; and the thread of a deleted breakpoint is gone
    after boundedly many of its steps.
  \<^item> Watch: however a watch starts or ends, no descriptor is left behind and no breakpoint but
    those whose removal the driver refuses, which the code does not look at; its thread ends when cancelled and
    gives up exactly after ten failed rounds; a round hands on exactly the hits the driver has
    brought and the filter lets through.
  \<^item> Filter: the parser accepts exactly the language of a grammar; printing is inverted by
    parsing; the evaluation is the disjunctive normal form.
  \<^item> Ring: records are read back as written across the end of the ring, and one signal is
    enough for the loop to read any backlog.
  \<^item> Maps: what resolves lies in a served region, what does not resolve is not mapped, and no
    answer of the cache is older than a second, however requests overtake each other.
  \<^item> Memory and workers: exact conditions of acceptance and of every answer, the driver call
    made, round trips, bounds. Processes: the listing is the selection asked for.
  \<^item> Command line: a watch runs for as long as it was told, then exits after boundedly many steps
    and has cleaned up.

  \<^bold>\<open>Parameters.\<close> What is not in the repository is an argument: the kernel
  \<open>K\<close>, a record of functions over an abstract state \<open>'k\<close> that every system
  call threads; \<open>perf_kernel\<close> for perf events; \<open>tasks\<close>, the threads of a
  process (crate procfs); \<open>rd\<close> and \<open>proc_fs\<close>, the file system; the wall
  clock and the monotonic clock; \<open>sys_bindings\<close>; the verdict of the blocking pool on a
  job. The record \<open>env\<close> gathers them for the server, with a relation
  \<open>en_world\<close> for what the rest of the system does in between. Laws assumed of them
  (\<open>kernel_sane\<close>, \<open>fd_laws\<close>, \<open>bp_laws\<close>,
  \<open>mem_laws\<close>, \<open>env_keeps\<close>) are named hypotheses, and each theorem that has one
  is applied to
  \<open>Demo_Kernel\<close>. \<open>fds\<close> is the set of the descriptors obtained from the sockets
  and bootstrap calls
  of the driver and not closed; \<open>bps\<close> that of the installed breakpoints;
  \<open>refused\<close> that of
  the breakpoints whose removal the driver has ever refused: a removal request that succeeds removes, one
  that fails does not. \<open>env_keeps\<close> says that reading files and the rest of the world leave these
  three sets alone.

  \<^bold>\<open>Loops and bounds.\<close> Loops over data are structural recursions or have a
  measure. The polling loop runs for as long as it is not cancelled: \<open>watch_loop\<close> takes
  the list of the readings of the cancel flag, one per round, so every finite observation of the
  loop is a value of it; \<open>watch_step\<close> is the same thread one system call at a time, removals
  included, and the lemma \<open>watch_steps_loop\<close> relates the two. A cancelled thread has at most
  \<open>steps_to_end\<close> steps left. The event loop of \<open>perf.rs\<close> never returns either:
  \<open>drain_rounds\<close> takes the number of its turns, and one per 128 records reads any
  backlog. Addresses, sizes and counters keep their width and wrap where the code's do.

  \<^bold>\<open>Interleaving.\<close> A creation is two steps, since its polling thread runs before
  the table has its entry; a deletion is two, since the entry is gone before the thread is told; a
  polling thread steps by one system call or one sample handed on, and removes each of its breakpoints in
  a step of its own; a memory request opens its driver, makes its call and closes it in three steps; the
  opening of a driver and the start of a watch, which hold a socket in between, are one step each; the
  worker steps from one access
  to shared state to the next (\<open>worker_step\<close>), so a sample in its hand is in neither
  queue nor log. A request on the maps cache and a listing of the processes are one step each; what
  requests on the cache do to each other between its two critical sections is
  \<open>Maps_Interleaving\<close>. Steps that panic are not modelled in the server, so a lock is
  never poisoned there. On the command line the main task, the polling thread and the clock take turns in
  \<open>run_step\<close>; that the end of the runtime waits for the blocking task that joins the thread is the
  documented behaviour of tokio for a task that has begun.

  \<^bold>\<open>Simplifications.\<close> A hash map is an association list with distinct keys or a
  partial function. The
  directory walk over \<open>/proc\<close> is a list of entries, read before the files of the
  processes. Strings are byte strings in UTF-8.

  \<^bold>\<open>Not modelled.\<close> The route table, extraction and JSON (crates axum and serde):
  handlers take requests and give typed bodies. Logging. The tokio runtime, beyond its decisions on
  a job and what the broadcast channel delivers to a client of the event stream (\<open>delivers\<close>,
  its documented behaviour). Parsing of raw arguments (crate clap) and colours (crate colored). The browser
  client in \<open>pwatch-ui\<close> and the sample target in \<open>examples\<close>, which are not
  part of the tool's logic.
\<close>

end
